theory Spec2Isabelle
  imports Complex_Main
begin

section \<open>The mobile agent of \<open>tutorial_world/mob.py\<close>\<close>

text \<open>
  A shallow embedding of class \<open>Mob\<close> (\<open>src/evennia/contrib/tutorials/tutorial_world/mob.py\<close>).
  Every method of the class is a function on an explicit \<open>world\<close>: the agent's persistent
  (\<open>db\<close>) and runtime (\<open>ndb\<close>) attributes, its location, the timers the ticker handler holds
  for it, the part of the game world the agent reads, and a trace of the effects it causes.
  A Python exception is a value \<open>Inl e\<close>; a method that returns normally yields \<open>Inr w\<close>.

  Conventions.
  \<^item> Python numbers that take part in division (\<open>health\<close>, \<open>damage\<close>, \<open>damage_resistance\<close>) are
    exact rationals; tick intervals are integers.
  \<^item> An attribute that may be \<open>None\<close> is an \<open>option\<close>. The boolean flags are only ever tested
    for truth, so an unset flag (\<open>None\<close>) is \<open>False\<close>.
  \<^item> \<open>random.random() < 0.02\<close> and the index drawn by each \<open>random.choice\<close> are inputs of the
    tick (record \<open>rnd\<close>).
  \<^item> Objects of the game world are numbered (\<open>oid\<close>).
\<close>

subsection \<open>Data\<close>

type_synonym oid = nat

datatype error =
    AttributeError string
  | ZeroDivisionError
  | TypeError string

text \<open>A message text: a literal, or a \<open>%\<close>-template applied to one argument.\<close>

datatype msgtext = Lit string | Fmt string string

datatype effect =
    Msg oid msgtext
  | MsgContents oid msgtext "oid list"
  | TickerRemove int string
  | TickerAdd int string
  | MoveTo oid
  | MoveObj oid oid
  | ExecuteCmd string
  | LogErr string

text \<open>An occupant of a room, as far as the agent looks at it.\<close>

record obj =
  obj_key :: string
  has_account :: bool
  is_superuser :: bool
  obj_health :: "rat option"

text \<open>An exit: \<open>access_traverse\<close> is \<open>exi.access(self, "traverse")\<close>.\<close>

record exit =
  access_traverse :: bool
  destination :: oid

text \<open>
  The world outside the agent: \<open>contents_of l\<close> is \<open>l.contents_get(exclude=self)\<close>, in its
  order; \<open>exits_of l\<close> is \<open>l.exits\<close>; \<open>search_object\<close> is the engine's lookup by name.
\<close>

record env =
  contents_of :: "oid \<Rightarrow> oid list"
  exits_of :: "oid \<Rightarrow> exit list"
  objs :: "oid \<Rightarrow> obj"
  search_object :: "string \<Rightarrow> oid list"

text \<open>The attributes \<open>at_object_creation\<close> writes and no other method changes.\<close>

record config =
  key :: string
  home :: oid
  patrolling :: bool
  aggressive :: bool
  immortal :: bool
  hunting :: bool
  damage_resistance :: rat
  patrolling_pace :: int
  aggressive_pace :: int
  hunting_pace :: int
  death_pace :: int
  desc_alive :: string
  desc_dead :: string
  full_health :: "rat option"
  send_defeated_to :: string
  defeat_msg :: string
  defeat_msg_room :: string
  weapon_ineffective_msg :: string
  death_msg :: string
  hit_msg :: string
  irregular_msgs :: "string list"

record world =
  cfg :: config
  location :: "oid option"
  is_dead :: bool
  health :: "rat option"
  desc :: "string option"
  last_ticker_interval :: "int option"
  last_hook_key :: "string option"
  ndb_is_patrolling :: bool
  ndb_is_attacking :: bool
  ndb_is_hunting :: bool
  ndb_is_immortal :: bool
  tickers :: "(int \<times> string) set"
  env :: env
  trace :: "effect list"

record weapon =
  magic :: bool

record rnd =
  roll :: bool
  msg_ix :: nat
  exit_ix :: nat
  verb_ix :: nat

subsection \<open>Python helpers\<close>

text \<open>\<open>random.choice\<close> on a non-empty sequence, with the drawn index as input.\<close>

definition choice :: "'a list \<Rightarrow> nat \<Rightarrow> 'a" where
  "choice xs n = xs ! (n mod length xs)"

text \<open>
  The names \<open>getattr(self, name)\<close> resolves to a method: the methods class \<open>Mob\<close> defines.
  (Attributes inherited from \<open>TutorialObject\<close> are not part of \<open>mob.py\<close>; no method of the
  class passes one.) Any other name raises \<open>AttributeError\<close>.
\<close>

definition mob_methods :: "string list" where
  "mob_methods =
    [''at_init'', ''at_object_creation'', ''_set_ticker'', ''_find_target'',
     ''set_alive'', ''set_dead'', ''start_idle'', ''start_patrolling'', ''start_hunting'',
     ''start_attacking'', ''do_patrol'', ''do_hunt'', ''do_attack'', ''at_hit'',
     ''at_new_arrival'']"

definition getattr :: "string \<Rightarrow> error + string" where
  "getattr name = (if name \<in> set mob_methods then Inr name else Inl (AttributeError name))"

subsection \<open>Collaborators of the host engine\<close>

text \<open>
  Modelled from the spec: the scheduler (\<open>TICKER_HANDLER\<close> of the host engine, not under
  \<open>src/\<close>). Section 2 of the spec: it "manages repeating timed callbacks per agent, keyed by
  (interval, agent, hook); supports add/replace/remove with no duplicate firing". For the one
  agent of this model the live timers are a set of (interval, hook) keys: \<open>add\<close> inserts the
  key, \<open>remove\<close> deletes it. Both calls are recorded in the trace.
\<close>

definition ticker_remove :: "int \<Rightarrow> string \<Rightarrow> world \<Rightarrow> world" where
  "ticker_remove i cb w =
     w\<lparr>tickers := tickers w - {(i, cb)}, trace := trace w @ [TickerRemove i cb]\<rparr>"

definition ticker_add :: "int \<Rightarrow> string \<Rightarrow> world \<Rightarrow> world" where
  "ticker_add i cb w =
     w\<lparr>tickers := insert (i, cb) (tickers w), trace := trace w @ [TickerAdd i cb]\<rparr>"

text \<open>
  Modelled from the spec: \<open>moveAgent(agent, destinationLocation)\<close> of section 6
  (\<open>self.move_to\<close> of the host engine): the agent's location becomes the destination.
\<close>

definition move_to :: "oid \<Rightarrow> world \<Rightarrow> world" where
  "move_to d w = w\<lparr>location := Some d, trace := trace w @ [MoveTo d]\<rparr>"

text \<open>
  Modelled from the spec: \<open>target.move_to(dest, quiet=True)\<close> for another occupant: it
  leaves every room's contents and is appended to the contents of \<open>dest\<close>.
\<close>

definition obj_move_to :: "oid \<Rightarrow> oid \<Rightarrow> world \<Rightarrow> world" where
  "obj_move_to t d w =
     w\<lparr>env := (env w)\<lparr>contents_of := (\<lambda>r. if r = d then removeAll t (contents_of (env w) r) @ [t]
                                             else removeAll t (contents_of (env w) r))\<rparr>,
       trace := trace w @ [MoveObj t d]\<rparr>"

text \<open>
  \<open>self.execute_cmd(cmd)\<close> runs a command of the host engine. Its effect on the world
  outside the agent is a parameter \<open>exec\<close>.
\<close>

definition execute_cmd :: "(string \<Rightarrow> env \<Rightarrow> env) \<Rightarrow> string \<Rightarrow> world \<Rightarrow> world" where
  "execute_cmd exec cmd w = w\<lparr>env := exec cmd (env w), trace := trace w @ [ExecuteCmd cmd]\<rparr>"

definition msg :: "oid \<Rightarrow> msgtext \<Rightarrow> world \<Rightarrow> world" where
  "msg who t w = w\<lparr>trace := trace w @ [Msg who t]\<rparr>"

text \<open>\<open>self.location.msg_contents(text, exclude=...)\<close>; \<open>self.location\<close> may be \<open>None\<close>.\<close>

definition location_msg_contents :: "msgtext \<Rightarrow> oid list \<Rightarrow> world \<Rightarrow> error + world" where
  "location_msg_contents t excl w =
     (case location w of
        None \<Rightarrow> Inl (AttributeError ''msg_contents'')
      | Some l \<Rightarrow> Inr (w\<lparr>trace := trace w @ [MsgContents l t excl]\<rparr>))"

definition log_err :: "string \<Rightarrow> world \<Rightarrow> world" where
  "log_err s w = w\<lparr>trace := trace w @ [LogErr s]\<rparr>"

subsection \<open>Creation and restart\<close>

text \<open>The apostrophe of two default messages is U+2019, written as its UTF-8 bytes.\<close>

definition rsquo :: string where
  "rsquo = [CHR 0xE2, CHR 0x80, CHR 0x99]"

definition default_config :: "string \<Rightarrow> oid \<Rightarrow> config" where
  "default_config k h =
     \<lparr>key = k, home = h,
      patrolling = True, aggressive = True, immortal = False, hunting = False,
      damage_resistance = 100,
      patrolling_pace = 6, aggressive_pace = 2, hunting_pace = 1, death_pace = 90,
      desc_alive = ''A hovering |csecurity drone|n hums here, its optics glowing faint blue.'',
      desc_dead = ''A heap of burnt circuitry and shattered plating.'',
      full_health = Some 25,
      send_defeated_to = ''recovery_bay'',
      defeat_msg = ''|rSYSTEM FAILURE:|n Your HUD flickers and fades as you collapse.'',
      defeat_msg_room = ''%s'' @ rsquo @ ''s neural link overloads and they drop to the ground.'',
      weapon_ineffective_msg =
        ''Your weapon'' @ rsquo @ ''s rounds spark harmlessly off reinforced plating!'',
      death_msg = k @ '' sparks violently, collapsing into a pool of molten alloy.'',
      hit_msg = k @ '' jerks as bullets ricochet off its chassis!'',
      irregular_msgs =
        [''The drone scans the area with a crimson beam.'',
         ''A low servo whine echoes from the drone.'',
         ''The drone repositions, whirring softly.'']\<rparr>"

text \<open>
  \<open>at_object_creation\<close> for an agent named \<open>k\<close> with home \<open>h\<close>, created at \<open>loc\<close> in the
  world \<open>e\<close>. \<open>db.hunting\<close> and \<open>db.last_hook_key\<close> are not written, so they read as \<open>None\<close>;
  no timer exists yet.
\<close>

definition at_object_creation :: "string \<Rightarrow> oid \<Rightarrow> oid option \<Rightarrow> env \<Rightarrow> world" where
  "at_object_creation k h loc e =
     \<lparr>cfg = default_config k h, location = loc, is_dead = True, health = Some 25,
      desc = None, last_ticker_interval = None, last_hook_key = None,
      ndb_is_patrolling = False, ndb_is_attacking = False, ndb_is_hunting = False,
      ndb_is_immortal = False, tickers = {}, env = e, trace = []\<rparr>"

definition at_init :: "world \<Rightarrow> world" where
  "at_init w =
     w\<lparr>ndb_is_patrolling := patrolling (cfg w) \<and> \<not> is_dead w,
       ndb_is_attacking := False,
       ndb_is_hunting := False,
       ndb_is_immortal := immortal (cfg w) \<or> is_dead w\<rparr>"

subsection \<open>Ticker and state helpers\<close>

definition set_ticker :: "int option \<Rightarrow> string option \<Rightarrow> bool \<Rightarrow> world \<Rightarrow> error + world" where
  "set_ticker interval hook_key stop w =
     (case (case (last_ticker_interval w, last_hook_key w) of
              (Some last_interval, Some last_hook) \<Rightarrow>
                if last_interval \<noteq> 0 \<and> last_hook \<noteq> [] then
                  (case getattr last_hook of
                     Inl e \<Rightarrow> Inl e
                   | Inr cb \<Rightarrow> Inr (ticker_remove last_interval cb w))
                else Inr w
            | _ \<Rightarrow> Inr w) of
        Inl e \<Rightarrow> Inl e
      | Inr w1 \<Rightarrow>
          let w2 = w1\<lparr>last_ticker_interval := interval, last_hook_key := hook_key\<rparr> in
          (case (interval, hook_key) of
             (Some i, Some h) \<Rightarrow>
               if \<not> stop \<and> i \<noteq> 0 \<and> h \<noteq> [] then
                 (case getattr h of
                    Inl e \<Rightarrow> Inl e
                  | Inr cb \<Rightarrow> Inr (ticker_add i cb w2))
               else Inr w2
           | _ \<Rightarrow> Inr w2))"

definition valid_target :: "env \<Rightarrow> oid \<Rightarrow> bool" where
  "valid_target e x = (has_account (objs e x) \<and> \<not> is_superuser (objs e x))"

definition find_target :: "oid option \<Rightarrow> world \<Rightarrow> error + oid option" where
  "find_target loc w =
     (case loc of
        None \<Rightarrow> Inl (AttributeError ''contents_get'')
      | Some l \<Rightarrow>
          (case filter (valid_target (env w)) (contents_of (env w) l) of
             [] \<Rightarrow> Inr None
           | t # _ \<Rightarrow> Inr (Some t)))"

subsection \<open>State setters\<close>

definition start_idle :: "world \<Rightarrow> error + world" where
  "start_idle w = set_ticker None None True w"

definition start_patrolling :: "world \<Rightarrow> error + world" where
  "start_patrolling w =
     (if \<not> patrolling (cfg w) then start_idle w
      else
        (case set_ticker (Some (patrolling_pace (cfg w))) (Some ''do_patrol'') False w of
           Inl e \<Rightarrow> Inl e
         | Inr w1 \<Rightarrow>
             Inr (w1\<lparr>ndb_is_patrolling := True, ndb_is_hunting := False,
                     ndb_is_attacking := False, health := full_health (cfg w1)\<rparr>)))"

definition start_hunting :: "world \<Rightarrow> error + world" where
  "start_hunting w =
     (if \<not> hunting (cfg w) then start_patrolling w
      else
        (case set_ticker (Some (hunting_pace (cfg w))) (Some ''do_hunt'') False w of
           Inl e \<Rightarrow> Inl e
         | Inr w1 \<Rightarrow>
             Inr (w1\<lparr>ndb_is_patrolling := False, ndb_is_hunting := True,
                     ndb_is_attacking := False\<rparr>)))"

definition start_attacking :: "world \<Rightarrow> error + world" where
  "start_attacking w =
     (if \<not> aggressive (cfg w) then start_hunting w
      else
        (case set_ticker (Some (aggressive_pace (cfg w))) (Some ''do_attack'') False w of
           Inl e \<Rightarrow> Inl e
         | Inr w1 \<Rightarrow>
             Inr (w1\<lparr>ndb_is_patrolling := False, ndb_is_hunting := False,
                     ndb_is_attacking := True\<rparr>)))"

definition set_alive :: "world \<Rightarrow> error + world" where
  "set_alive w =
     (let w1 = w\<lparr>health := full_health (cfg w), is_dead := False,
                 desc := Some (desc_alive (cfg w)),
                 ndb_is_immortal := immortal (cfg w),
                 ndb_is_patrolling := patrolling (cfg w)\<rparr>;
          w2 = (if location w1 = None then move_to (home (cfg w1)) w1 else w1)
      in if patrolling (cfg w2) then start_patrolling w2 else Inr w2)"

definition set_dead :: "world \<Rightarrow> error + world" where
  "set_dead w =
     set_ticker (Some (death_pace (cfg w))) (Some ''set_alive'') False
       (w\<lparr>is_dead := True, location := None,
          ndb_is_patrolling := False, ndb_is_attacking := False,
          ndb_is_hunting := False, ndb_is_immortal := True\<rparr>)"

subsection \<open>Behaviour loops\<close>

text \<open>The first statement of every tick: the occasional ambient message.\<close>

definition ambient :: "rnd \<Rightarrow> world \<Rightarrow> error + world" where
  "ambient r w =
     (if roll r \<and> irregular_msgs (cfg w) \<noteq> [] then
        location_msg_contents (Lit (choice (irregular_msgs (cfg w)) (msg_ix r))) [] w
      else Inr w)"

text \<open>\<open>[exi for exi in self.location.exits if exi.access(self, "traverse")]\<close>\<close>

definition traversable_exits :: "world \<Rightarrow> error + exit list" where
  "traversable_exits w =
     (case location w of
        None \<Rightarrow> Inl (AttributeError ''exits'')
      | Some l \<Rightarrow> Inr (filter access_traverse (exits_of (env w) l)))"

text \<open>The part of \<open>do_patrol\<close> after the search for a target (lines 238 to 243).\<close>

definition patrol_move :: "rnd \<Rightarrow> world \<Rightarrow> error + world" where
  "patrol_move r w =
     (case traversable_exits w of
        Inl e \<Rightarrow> Inl e
      | Inr exits \<Rightarrow>
          if exits \<noteq> [] then Inr (move_to (destination (choice exits (exit_ix r))) w)
          else Inr (move_to (home (cfg w)) w))"

definition do_patrol :: "rnd \<Rightarrow> world \<Rightarrow> error + world" where
  "do_patrol r w =
     (case ambient r w of
        Inl e \<Rightarrow> Inl e
      | Inr w1 \<Rightarrow>
          if aggressive (cfg w1) then
            (case find_target (location w1) w1 of
               Inl e \<Rightarrow> Inl e
             | Inr (Some target) \<Rightarrow> start_attacking w1
             | Inr None \<Rightarrow> patrol_move r w1)
          else patrol_move r w1)"

text \<open>
  The \<open>for\<close> loop of \<open>do_hunt\<close> over the traversable exits, with the statement after it
  (\<open>self.start_patrolling()\<close>) as the end of the list.
\<close>

fun hunt_exits :: "exit list \<Rightarrow> world \<Rightarrow> error + world" where
  "hunt_exits [] w = start_patrolling w"
| "hunt_exits (ex # exits) w =
     (case find_target (Some (destination ex)) w of
        Inl e \<Rightarrow> Inl e
      | Inr (Some target) \<Rightarrow> Inr (move_to (destination ex) w)
      | Inr None \<Rightarrow> hunt_exits exits w)"

definition hunt_move :: "world \<Rightarrow> error + world" where
  "hunt_move w =
     (case traversable_exits w of
        Inl e \<Rightarrow> Inl e
      | Inr exits \<Rightarrow>
          if exits \<noteq> [] then hunt_exits exits w
          else Inr (move_to (home (cfg w)) w))"

definition do_hunt :: "rnd \<Rightarrow> world \<Rightarrow> error + world" where
  "do_hunt r w =
     (case ambient r w of
        Inl e \<Rightarrow> Inl e
      | Inr w1 \<Rightarrow>
          if aggressive (cfg w1) then
            (case find_target (location w1) w1 of
               Inl e \<Rightarrow> Inl e
             | Inr (Some target) \<Rightarrow> start_attacking w1
             | Inr None \<Rightarrow> hunt_move w1)
          else hunt_move w1)"

definition attack_verbs :: "string list" where
  "attack_verbs = [''burst'', ''slice'', ''slash'', ''pierce'', ''blast'']"

text \<open>
  The part of \<open>do_attack\<close> after the command has run (lines 280 to 287); \<open>target.db.health\<close>
  of \<open>None\<close> cannot be compared with \<open>0\<close>.
\<close>

definition attack_outcome :: "oid \<Rightarrow> world \<Rightarrow> error + world" where
  "attack_outcome target w =
     (case obj_health (objs (env w) target) of
        None \<Rightarrow> Inl (TypeError ''<='')
      | Some h \<Rightarrow>
          if h \<le> 0 then
            (case location_msg_contents
                    (Fmt (defeat_msg_room (cfg w)) (obj_key (objs (env w) target))) [target]
                    (msg target (Lit (defeat_msg (cfg w))) w) of
               Inl e \<Rightarrow> Inl e
             | Inr w1 \<Rightarrow>
                 (case search_object (env w1) (send_defeated_to (cfg w1)) of
                    [] \<Rightarrow>
                      Inr (log_err (''Mob: send_defeated_to not found: ''
                                      @ send_defeated_to (cfg w1)) w1)
                  | d # _ \<Rightarrow> Inr (obj_move_to target d w1)))
          else Inr w)"

definition do_attack :: "(string \<Rightarrow> env \<Rightarrow> env) \<Rightarrow> rnd \<Rightarrow> world \<Rightarrow> error + world" where
  "do_attack exec r w =
     (case ambient r w of
        Inl e \<Rightarrow> Inl e
      | Inr w1 \<Rightarrow>
          (case find_target (location w1) w1 of
             Inl e \<Rightarrow> Inl e
           | Inr None \<Rightarrow> start_hunting w1
           | Inr (Some target) \<Rightarrow>
               let attack_cmd = choice attack_verbs (verb_ix r) in
               attack_outcome target
                 (execute_cmd exec (attack_cmd @ '' '' @ obj_key (objs (env w1) target)) w1)))"

subsection \<open>Reaction hooks\<close>

text \<open>The damage step of \<open>at_hit\<close> (lines 299 to 305).\<close>

definition take_damage :: "weapon \<Rightarrow> oid \<Rightarrow> rat \<Rightarrow> rat \<Rightarrow> world \<Rightarrow> error + world" where
  "take_damage wpn attacker damage h w =
     (if \<not> ndb_is_immortal w then
        (if \<not> magic wpn then
           (if damage_resistance (cfg w) = 0 then Inl ZeroDivisionError
            else Inr ((msg attacker (Lit (weapon_ineffective_msg (cfg w))) w)
                        \<lparr>health := Some (h - damage / damage_resistance (cfg w))\<rparr>))
         else
           (case location_msg_contents (Lit (hit_msg (cfg w))) [] w of
              Inl e \<Rightarrow> Inl e
            | Inr w1 \<Rightarrow> Inr (w1\<lparr>health := Some (h - damage)\<rparr>)))
      else Inr w)"

definition at_hit :: "weapon \<Rightarrow> oid \<Rightarrow> rat \<Rightarrow> world \<Rightarrow> error + world" where
  "at_hit wpn attacker damage w =
     (case health w of
        None \<Rightarrow> Inr (msg attacker (Lit (weapon_ineffective_msg (cfg w))) w)
      | Some h \<Rightarrow>
          (case take_damage wpn attacker damage h w of
             Inl e \<Rightarrow> Inl e
           | Inr w1 \<Rightarrow>
               (case health w1 of
                  None \<Rightarrow> Inl (TypeError ''<='')
                | Some h1 \<Rightarrow>
                    if h1 \<le> 0 then set_dead (msg attacker (Lit (death_msg (cfg w1))) w1)
                    else if aggressive (cfg w1) \<and> \<not> ndb_is_attacking w1 then start_attacking w1
                    else Inr w1)))"

definition at_new_arrival :: "oid \<Rightarrow> world \<Rightarrow> error + world" where
  "at_new_arrival new_character w =
     (if aggressive (cfg w) \<and> \<not> ndb_is_attacking w then start_attacking w else Inr w)"

subsection \<open>Histories\<close>

text \<open>
  Everything that can happen to an agent: the administrative toggles, a restart of the
  server (\<open>at_init\<close>), the three ticks, the two reaction hooks, and a change of the world
  outside the agent.
\<close>

datatype event =
    SetAlive
  | SetDead
  | AtInit
  | DoPatrol rnd
  | DoHunt rnd
  | DoAttack "string \<Rightarrow> env \<Rightarrow> env" rnd
  | AtHit weapon oid rat
  | AtNewArrival oid
  | Outside "env \<Rightarrow> env"

fun fire :: "event \<Rightarrow> world \<Rightarrow> error + world" where
  "fire SetAlive w = set_alive w"
| "fire SetDead w = set_dead w"
| "fire AtInit w = Inr (at_init w)"
| "fire (DoPatrol r) w = do_patrol r w"
| "fire (DoHunt r) w = do_hunt r w"
| "fire (DoAttack exec r) w = do_attack exec r w"
| "fire (AtHit wpn attacker damage) w = at_hit wpn attacker damage w"
| "fire (AtNewArrival c) w = at_new_arrival c w"
| "fire (Outside f) w = Inr (w\<lparr>env := f (env w)\<rparr>)"

text \<open>A history runs until an event raises.\<close>

fun run :: "event list \<Rightarrow> world \<Rightarrow> error + world" where
  "run [] w = Inr w"
| "run (ev # evs) w = (case fire ev w of Inl e \<Rightarrow> Inl e | Inr w1 \<Rightarrow> run evs w1)"

text \<open>
  The four states of the specification, read off the runtime flags: an agent none of whose
  mode flags is set is \<open>Dormant\<close>.
\<close>

datatype mode = Dormant | Patrolling | Hunting | Attacking

definition mode_of :: "world \<Rightarrow> mode" where
  "mode_of w =
     (if ndb_is_attacking w then Attacking
      else if ndb_is_hunting w then Hunting
      else if ndb_is_patrolling w then Patrolling
      else Dormant)"

subsection \<open>Predicates on worlds\<close>

text \<open>The timer \<open>_set_ticker\<close> would cancel next: the recorded one, when both parts are true.\<close>

definition last_timer :: "world \<Rightarrow> (int \<times> string) set" where
  "last_timer w =
     (case (last_ticker_interval w, last_hook_key w) of
        (Some i, Some h) \<Rightarrow> if i \<noteq> 0 \<and> h \<noteq> [] then {(i, h)} else {}
      | _ \<Rightarrow> {})"

text \<open>The timer \<open>_set_ticker(interval, hook_key, stop)\<close> installs.\<close>

definition armed :: "int option \<Rightarrow> string option \<Rightarrow> bool \<Rightarrow> (int \<times> string) set" where
  "armed interval hook_key stop =
     (case (interval, hook_key) of
        (Some i, Some h) \<Rightarrow> if \<not> stop \<and> i \<noteq> 0 \<and> h \<noteq> [] then {(i, h)} else {}
      | _ \<Rightarrow> {})"

text \<open>The calls to the ticker handler that go with \<open>last_timer\<close> and \<open>armed\<close>.\<close>

definition cancel_effects :: "world \<Rightarrow> effect list" where
  "cancel_effects w =
     (case (last_ticker_interval w, last_hook_key w) of
        (Some i, Some h) \<Rightarrow> if i \<noteq> 0 \<and> h \<noteq> [] then [TickerRemove i h] else []
      | _ \<Rightarrow> [])"

definition arm_effects :: "int option \<Rightarrow> string option \<Rightarrow> bool \<Rightarrow> effect list" where
  "arm_effects interval hook_key stop =
     (case (interval, hook_key) of
        (Some i, Some h) \<Rightarrow> if \<not> stop \<and> i \<noteq> 0 \<and> h \<noteq> [] then [TickerAdd i h] else []
      | _ \<Rightarrow> [])"

text \<open>The recorded hook, if one is to be cancelled, names a method.\<close>

definition last_hook_resolves :: "world \<Rightarrow> bool" where
  "last_hook_resolves w = (\<forall>t \<in> last_timer w. snd t \<in> set mob_methods)"

text \<open>Every live timer is the recorded one, and its hook names a method.\<close>

definition ticker_inv :: "world \<Rightarrow> bool" where
  "ticker_inv w = (tickers w \<subseteq> last_timer w \<and> (\<forall>t \<in> tickers w. snd t \<in> set mob_methods))"

text \<open>
  A live timer belongs to the mode whose flag is set; a live timer of an agent with no mode
  flag set is the reactivation timer.
\<close>

definition timer_matches_mode :: "world \<Rightarrow> bool" where
  "timer_matches_mode w =
     ((ndb_is_patrolling w \<longrightarrow>
         patrolling (cfg w) \<and> tickers w \<subseteq> {(patrolling_pace (cfg w), ''do_patrol'')}) \<and>
      (ndb_is_hunting w \<longrightarrow> tickers w \<subseteq> {(hunting_pace (cfg w), ''do_hunt'')}) \<and>
      (ndb_is_attacking w \<longrightarrow> tickers w \<subseteq> {(aggressive_pace (cfg w), ''do_attack'')}) \<and>
      (\<not> ndb_is_patrolling w \<and> \<not> ndb_is_hunting w \<and> \<not> ndb_is_attacking w \<longrightarrow>
         tickers w \<subseteq> {(death_pace (cfg w), ''set_alive'')}))"

text \<open>What an operation that does not call \<open>_set_ticker\<close> leaves alone.\<close>

definition timers_kept :: "world \<Rightarrow> world \<Rightarrow> bool" where
  "timers_kept w w' =
     (cfg w' = cfg w \<and> tickers w' = tickers w \<and>
      last_ticker_interval w' = last_ticker_interval w \<and> last_hook_key w' = last_hook_key w \<and>
      is_dead w' = is_dead w \<and>
      ndb_is_patrolling w' = ndb_is_patrolling w \<and> ndb_is_hunting w' = ndb_is_hunting w \<and>
      ndb_is_attacking w' = ndb_is_attacking w \<and> ndb_is_immortal w' = ndb_is_immortal w)"

text \<open>The timer that belongs to the current mode; for \<open>Dormant\<close> the reactivation timer.\<close>

definition mode_timer :: "world \<Rightarrow> int \<times> string" where
  "mode_timer w =
     (case mode_of w of
        Dormant \<Rightarrow> (death_pace (cfg w), ''set_alive'')
      | Patrolling \<Rightarrow> (patrolling_pace (cfg w), ''do_patrol'')
      | Hunting \<Rightarrow> (hunting_pace (cfg w), ''do_hunt'')
      | Attacking \<Rightarrow> (aggressive_pace (cfg w), ''do_attack''))"

subsection \<open>Scenarios\<close>

text \<open>
  Concrete worlds for the examples: an empty world, and a world of three rooms in which
  room 0 has exits to rooms 1 and 2, player 7 stands in room 1 and player 8 in room 2.
\<close>

definition nobody :: obj where
  "nobody = \<lparr>obj_key = ''thing'', has_account = False, is_superuser = False, obj_health = None\<rparr>"

definition player :: "string \<Rightarrow> rat \<Rightarrow> obj" where
  "player k h = \<lparr>obj_key = k, has_account = True, is_superuser = False, obj_health = Some h\<rparr>"

definition env0 :: env where
  "env0 = \<lparr>contents_of = (\<lambda>r. []), exits_of = (\<lambda>r. []), objs = (\<lambda>x. nobody),
           search_object = (\<lambda>name. [])\<rparr>"

definition env1 :: env where
  "env1 =
     \<lparr>contents_of = (\<lambda>r. if r = 1 then [7] else if r = 2 then [8] else []),
      exits_of = (\<lambda>r. if r = 0 then [\<lparr>access_traverse = True, destination = 1\<rparr>,
                                       \<lparr>access_traverse = True, destination = 2\<rparr>] else []),
      objs = (\<lambda>x. if x = 7 then player ''Ann'' 10 else if x = 8 then player ''Bob'' 10
                   else nobody),
      search_object = (\<lambda>name. [])\<rparr>"

definition drone0 :: world where
  "drone0 = at_object_creation ''drone'' 0 None env0"


definition env2 :: env where
  "env2 = env1\<lparr>contents_of := (\<lambda>r. [])\<rparr>"



definition drone_alive :: world where
  "drone_alive = projr (set_alive drone0)"

definition drone_killed :: world where
  "drone_killed = projr (at_hit \<lparr>magic = True\<rparr> 7 30 drone_alive)"


text \<open>An agent that shares room 0 with player 7; every attack command knocks the player out.\<close>

definition env3 :: env where
  "env3 = env1\<lparr>contents_of := (\<lambda>r. if r = 0 then [7] else [])\<rparr>"

definition knock_out :: "string \<Rightarrow> env \<Rightarrow> env" where
  "knock_out cmd e = e\<lparr>objs := (objs e)(7 := (objs e 7)\<lparr>obj_health := Some 0\<rparr>)\<rparr>"

definition drone3 :: world where
  "drone3 = at_object_creation ''drone'' 0 (Some 0) env3"

definition drone3_alive :: world where
  "drone3_alive = projr (set_alive drone3)"

definition rnd0 :: rnd where
  "rnd0 = \<lparr>roll = False, msg_ix = 0, exit_ix = 0, verb_ix = 0\<rparr>"

section \<open>The ticker helper\<close>

text \<open>
  \<open>_set_ticker\<close> returns normally exactly when the hook it cancels and the hook it installs
  both name a method; it then replaces the recorded timer by the new one.
\<close>

lemma set_ticker_Inr_iff:
  "set_ticker I H stop w = Inr w' \<longleftrightarrow>
     last_hook_resolves w \<and> (\<forall>t \<in> armed I H stop. snd t \<in> set mob_methods) \<and>
     w' = w\<lparr>last_ticker_interval := I, last_hook_key := H,
            tickers := (tickers w - last_timer w) \<union> armed I H stop,
            trace := trace w @ cancel_effects w @ arm_effects I H stop\<rparr>"
proof (cases "last_ticker_interval w")
  case None
  then show ?thesis
    unfolding set_ticker_def last_hook_resolves_def last_timer_def armed_def
      cancel_effects_def arm_effects_def ticker_add_def
    by (cases I; cases H) (auto simp: getattr_def)
next
  case li: (Some i)
  show ?thesis
  proof (cases "last_hook_key w")
    case None
    then show ?thesis
      using li
      unfolding set_ticker_def last_hook_resolves_def last_timer_def armed_def
        cancel_effects_def arm_effects_def ticker_add_def
      by (cases I; cases H) (auto simp: getattr_def)
  next
    case (Some h)
    then show ?thesis
      using li
      unfolding set_ticker_def last_hook_resolves_def last_timer_def armed_def
        cancel_effects_def arm_effects_def ticker_add_def ticker_remove_def
      by (cases I; cases H) (auto simp: getattr_def)
  qed
qed

section \<open>Timers: one at most, and the one of the current mode\<close>

lemma armed_None [simp]: "armed None H stop = {}" "armed I None stop = {}"
  by (simp_all add: armed_def split: option.splits)

lemma hooks_are_methods [simp]:
  "''set_alive'' \<in> set mob_methods" "''do_patrol'' \<in> set mob_methods"
  "''do_hunt'' \<in> set mob_methods" "''do_attack'' \<in> set mob_methods"
  by (simp_all add: mob_methods_def)

lemma set_ticker_inv:
  assumes "ticker_inv w" "set_ticker I H stop w = Inr w'"
  shows "ticker_inv w' \<and> tickers w' = armed I H stop"
proof -
  from assms(2) have r: "\<forall>t \<in> armed I H stop. snd t \<in> set mob_methods"
    and w': "w' = w\<lparr>last_ticker_interval := I, last_hook_key := H,
            tickers := (tickers w - last_timer w) \<union> armed I H stop,
            trace := trace w @ cancel_effects w @ arm_effects I H stop\<rparr>"
    by (simp_all add: set_ticker_Inr_iff)
  have k: "tickers w - last_timer w = {}"
    using assms(1) by (auto simp: ticker_inv_def)
  have t: "tickers w' = armed I H stop"
    by (simp add: w' k)
  have "armed I H stop \<subseteq> last_timer w'"
    by (auto simp: w' last_timer_def armed_def split: option.splits if_splits)
  with r t show ?thesis
    by (simp add: ticker_inv_def)
qed

lemma set_ticker_modes:
  assumes "set_ticker I H stop w = Inr w'"
  shows "cfg w' = cfg w \<and> is_dead w' = is_dead w \<and> location w' = location w \<and>
    health w' = health w \<and> env w' = env w \<and>
    ndb_is_patrolling w' = ndb_is_patrolling w \<and> ndb_is_hunting w' = ndb_is_hunting w \<and>
    ndb_is_attacking w' = ndb_is_attacking w \<and> ndb_is_immortal w' = ndb_is_immortal w"
  using assms by (simp add: set_ticker_Inr_iff)

lemma ticker_inv_cong:
  "tickers w' = tickers w \<Longrightarrow> last_ticker_interval w' = last_ticker_interval w \<Longrightarrow>
   last_hook_key w' = last_hook_key w \<Longrightarrow> ticker_inv w' = ticker_inv w"
  by (simp add: ticker_inv_def last_timer_def)

lemma start_idle_inv:
  assumes "ticker_inv w" "start_idle w = Inr w'"
  shows "ticker_inv w' \<and> (timer_matches_mode w \<longrightarrow> timer_matches_mode w')"
  using set_ticker_inv[OF assms(1) assms(2)[unfolded start_idle_def]]
    set_ticker_modes[OF assms(2)[unfolded start_idle_def]]
  by (simp add: timer_matches_mode_def)

lemma start_patrolling_inv:
  assumes "ticker_inv w" "start_patrolling w = Inr w'"
  shows "ticker_inv w' \<and>
    (patrolling (cfg w) \<or> timer_matches_mode w \<longrightarrow> timer_matches_mode w')"
proof (cases "patrolling (cfg w)")
  case False
  then show ?thesis
    using assms start_idle_inv by (simp add: start_patrolling_def)
next
  case True
  then obtain w1 where s: "set_ticker (Some (patrolling_pace (cfg w))) (Some ''do_patrol'') False w = Inr w1"
    and w': "w' = w1\<lparr>ndb_is_patrolling := True, ndb_is_hunting := False,
                     ndb_is_attacking := False, health := full_health (cfg w1)\<rparr>"
    using assms(2) by (auto simp: start_patrolling_def split: sum.splits)
  show ?thesis
    using set_ticker_inv[OF assms(1) s] set_ticker_modes[OF s] True
      ticker_inv_cong[of w' w1]
    by (simp add: w' timer_matches_mode_def armed_def)
qed

lemma start_hunting_inv:
  assumes "ticker_inv w" "start_hunting w = Inr w'"
  shows "ticker_inv w' \<and>
    (hunting (cfg w) \<or> patrolling (cfg w) \<or> timer_matches_mode w \<longrightarrow> timer_matches_mode w')"
proof (cases "hunting (cfg w)")
  case False
  then show ?thesis
    using assms start_patrolling_inv by (simp add: start_hunting_def)
next
  case True
  then obtain w1 where s: "set_ticker (Some (hunting_pace (cfg w))) (Some ''do_hunt'') False w = Inr w1"
    and w': "w' = w1\<lparr>ndb_is_patrolling := False, ndb_is_hunting := True,
                     ndb_is_attacking := False\<rparr>"
    using assms(2) by (auto simp: start_hunting_def split: sum.splits)
  show ?thesis
    using set_ticker_inv[OF assms(1) s] set_ticker_modes[OF s]
      ticker_inv_cong[of w' w1]
    by (simp add: w' timer_matches_mode_def armed_def)
qed

lemma start_attacking_inv:
  assumes "ticker_inv w" "start_attacking w = Inr w'"
  shows "ticker_inv w' \<and>
    (aggressive (cfg w) \<or> hunting (cfg w) \<or> patrolling (cfg w) \<or> timer_matches_mode w
       \<longrightarrow> timer_matches_mode w')"
proof (cases "aggressive (cfg w)")
  case False
  then show ?thesis
    using assms start_hunting_inv by (simp add: start_attacking_def)
next
  case True
  then obtain w1 where s: "set_ticker (Some (aggressive_pace (cfg w))) (Some ''do_attack'') False w = Inr w1"
    and w': "w' = w1\<lparr>ndb_is_patrolling := False, ndb_is_hunting := False,
                     ndb_is_attacking := True\<rparr>"
    using assms(2) by (auto simp: start_attacking_def split: sum.splits)
  show ?thesis
    using set_ticker_inv[OF assms(1) s] set_ticker_modes[OF s]
      ticker_inv_cong[of w' w1]
    by (simp add: w' timer_matches_mode_def armed_def)
qed

lemma set_dead_inv:
  assumes "ticker_inv w" "set_dead w = Inr w'"
  shows "ticker_inv w' \<and> timer_matches_mode w'"
proof -
  let ?w0 = "w\<lparr>is_dead := True, location := None,
          ndb_is_patrolling := False, ndb_is_attacking := False,
          ndb_is_hunting := False, ndb_is_immortal := True\<rparr>"
  have i: "ticker_inv ?w0" using assms(1) ticker_inv_cong[of ?w0 w] by simp
  have s: "set_ticker (Some (death_pace (cfg ?w0))) (Some ''set_alive'') False ?w0 = Inr w'"
    using assms(2) by (simp add: set_dead_def)
  show ?thesis
    using set_ticker_inv[OF i s] set_ticker_modes[OF s]
    by (simp add: timer_matches_mode_def armed_def)
qed


lemma kept_refl: "timers_kept w w"
  by (simp add: timers_kept_def)

lemma kept_trans: "timers_kept w w1 \<Longrightarrow> timers_kept w1 w2 \<Longrightarrow> timers_kept w w2"
  by (simp add: timers_kept_def)

lemma kept_inv:
  assumes "timers_kept w w'"
  shows "ticker_inv w' = ticker_inv w" "timer_matches_mode w' = timer_matches_mode w"
  using assms ticker_inv_cong[of w' w]
  by (simp_all add: timers_kept_def timer_matches_mode_def)

lemma kept_msg: "timers_kept w (msg who t w)"
  by (simp add: timers_kept_def msg_def)

lemma kept_move_to: "timers_kept w (move_to d w)"
  by (simp add: timers_kept_def move_to_def)

lemma kept_location_msg_contents:
  "location_msg_contents t excl w = Inr w' \<Longrightarrow> timers_kept w w'"
  by (auto simp: timers_kept_def location_msg_contents_def split: option.splits)

lemma kept_ambient: "ambient r w = Inr w' \<Longrightarrow> timers_kept w w'"
  by (auto simp: ambient_def kept_refl kept_location_msg_contents split: if_splits)

lemma kept_patrol_move: "patrol_move r w = Inr w' \<Longrightarrow> timers_kept w w'"
  by (auto simp: patrol_move_def kept_move_to split: sum.splits if_splits)

lemma kept_execute_cmd: "timers_kept w (execute_cmd exec c w)"
  by (simp add: timers_kept_def execute_cmd_def)

lemma kept_attack_outcome: "attack_outcome t w = Inr w' \<Longrightarrow> timers_kept w w'"
  by (auto simp: attack_outcome_def timers_kept_def location_msg_contents_def msg_def
      log_err_def obj_move_to_def split: option.splits if_splits sum.splits list.splits)

lemma kept_take_damage: "take_damage wpn a d h w = Inr w' \<Longrightarrow> timers_kept w w'"
  by (auto simp: take_damage_def timers_kept_def location_msg_contents_def msg_def
      split: option.splits if_splits sum.splits)

lemma set_alive_inv:
  assumes "ticker_inv w" "set_alive w = Inr w'"
  shows "ticker_inv w' \<and> (timer_matches_mode w \<longrightarrow> timer_matches_mode w')"
proof -
  define w1 where "w1 = w\<lparr>health := full_health (cfg w), is_dead := False,
                 desc := Some (desc_alive (cfg w)),
                 ndb_is_immortal := immortal (cfg w),
                 ndb_is_patrolling := patrolling (cfg w)\<rparr>"
  define w2 where "w2 = (if location w1 = None then move_to (home (cfg w1)) w1 else w1)"
  have r: "(if patrolling (cfg w2) then start_patrolling w2 else Inr w2) = Inr w'"
    using assms(2) by (simp only: set_alive_def Let_def w1_def w2_def)
  have c: "cfg w2 = cfg w" "tickers w2 = tickers w"
    "last_ticker_interval w2 = last_ticker_interval w" "last_hook_key w2 = last_hook_key w"
    "ndb_is_patrolling w2 = patrolling (cfg w)" "ndb_is_hunting w2 = ndb_is_hunting w"
    "ndb_is_attacking w2 = ndb_is_attacking w"
    by (simp_all add: w2_def w1_def move_to_def)
  have i2: "ticker_inv w2"
    using assms(1) ticker_inv_cong[of w2 w] c by simp
  show ?thesis
  proof (cases "patrolling (cfg w)")
    case True
    then show ?thesis
      using r c start_patrolling_inv[OF i2, of w'] by simp
  next
    case False
    then have "w' = w2" using r c by simp
    then show ?thesis
      using i2 c False by (auto simp: timer_matches_mode_def)
  qed
qed

lemma at_init_inv: "ticker_inv w \<Longrightarrow> ticker_inv (at_init w)"
  using ticker_inv_cong[of "at_init w" w] by (simp add: at_init_def)

lemma at_new_arrival_inv:
  assumes "ticker_inv w" "at_new_arrival c w = Inr w'"
  shows "ticker_inv w' \<and> (timer_matches_mode w \<longrightarrow> timer_matches_mode w')"
  using assms start_attacking_inv[OF assms(1), of w']
  by (auto simp: at_new_arrival_def split: if_splits)

lemma at_hit_inv:
  assumes "ticker_inv w" "at_hit wpn a d w = Inr w'"
  shows "ticker_inv w' \<and> (timer_matches_mode w \<longrightarrow> timer_matches_mode w')"
proof (cases "health w")
  case None
  then have "w' = msg a (Lit (weapon_ineffective_msg (cfg w))) w"
    using assms(2) by (simp add: at_hit_def)
  moreover have "timers_kept w (msg a (Lit (weapon_ineffective_msg (cfg w))) w)"
    by (rule kept_msg)
  ultimately show ?thesis
    using assms(1) kept_inv by simp
next
  case (Some h)
  then obtain w1 h1 where t: "take_damage wpn a d h w = Inr w1" and h1: "health w1 = Some h1"
    and r: "(if h1 \<le> 0 then set_dead (msg a (Lit (death_msg (cfg w1))) w1)
             else if aggressive (cfg w1) \<and> \<not> ndb_is_attacking w1 then start_attacking w1
             else Inr w1) = Inr w'"
    using assms(2) by (auto simp: at_hit_def split: sum.splits option.splits)
  have k1: "ticker_inv w1" "timer_matches_mode w1 = timer_matches_mode w"
    using kept_inv[OF kept_take_damage[OF t]] assms(1) by simp_all
  let ?m = "msg a (Lit (death_msg (cfg w1))) w1"
  have "timers_kept w1 ?m" by (rule kept_msg)
  then have km: "ticker_inv ?m"
    using kept_inv(1) k1 by simp
  show ?thesis
    using r k1 set_dead_inv[OF km, of w'] start_attacking_inv[OF k1(1), of w']
    by (auto split: if_splits)
qed

lemma do_patrol_inv:
  assumes "ticker_inv w" "do_patrol r w = Inr w'"
  shows "ticker_inv w' \<and> (timer_matches_mode w \<longrightarrow> timer_matches_mode w')"
proof -
  obtain w1 where a: "ambient r w = Inr w1"
    and r: "start_attacking w1 = Inr w' \<or> patrol_move r w1 = Inr w'"
    using assms(2)
    by (auto simp: do_patrol_def split: sum.splits option.splits if_splits)
  have k1: "ticker_inv w1" "timer_matches_mode w1 = timer_matches_mode w"
    using kept_inv[OF kept_ambient[OF a]] assms(1) by simp_all
  from r show ?thesis
  proof
    assume "start_attacking w1 = Inr w'"
    then show ?thesis using start_attacking_inv[OF k1(1)] k1(2) by simp
  next
    assume "patrol_move r w1 = Inr w'"
    then show ?thesis using kept_inv[OF kept_patrol_move] k1 by simp
  qed
qed

lemma hunt_exits_inv:
  assumes "ticker_inv w" "hunt_exits exits w = Inr w'"
  shows "ticker_inv w' \<and> (timer_matches_mode w \<longrightarrow> timer_matches_mode w')"
  using assms(2)
proof (induction exits)
  case Nil
  then show ?case using start_patrolling_inv[OF assms(1), of w'] by simp
next
  case (Cons ex exits)
  have "timers_kept w (move_to (destination ex) w)" by (rule kept_move_to)
  with Cons show ?case
    using kept_inv assms(1)
    by (auto split: sum.splits option.splits)
qed

lemma hunt_move_inv:
  assumes "ticker_inv w" "hunt_move w = Inr w'"
  shows "ticker_inv w' \<and> (timer_matches_mode w \<longrightarrow> timer_matches_mode w')"
proof -
  have "timers_kept w (move_to (home (cfg w)) w)" by (rule kept_move_to)
  then show ?thesis
    using assms hunt_exits_inv[OF assms(1), of _ w'] kept_inv
    by (auto simp: hunt_move_def split: sum.splits if_splits)
qed

lemma do_hunt_inv:
  assumes "ticker_inv w" "do_hunt r w = Inr w'"
  shows "ticker_inv w' \<and> (timer_matches_mode w \<longrightarrow> timer_matches_mode w')"
proof -
  obtain w1 where a: "ambient r w = Inr w1"
    and r: "start_attacking w1 = Inr w' \<or> hunt_move w1 = Inr w'"
    using assms(2)
    by (auto simp: do_hunt_def split: sum.splits option.splits if_splits)
  have k1: "ticker_inv w1" "timer_matches_mode w1 = timer_matches_mode w"
    using kept_inv[OF kept_ambient[OF a]] assms(1) by simp_all
  from r show ?thesis
  proof
    assume "start_attacking w1 = Inr w'"
    then show ?thesis using start_attacking_inv[OF k1(1)] k1(2) by simp
  next
    assume "hunt_move w1 = Inr w'"
    then show ?thesis using hunt_move_inv[OF k1(1)] k1(2) by simp
  qed
qed

lemma do_attack_inv:
  assumes "ticker_inv w" "do_attack exec r w = Inr w'"
  shows "ticker_inv w' \<and> (timer_matches_mode w \<longrightarrow> timer_matches_mode w')"
proof -
  obtain w1 where a: "ambient r w = Inr w1"
    and r: "start_hunting w1 = Inr w' \<or>
            (\<exists>t c. attack_outcome t (execute_cmd exec c w1) = Inr w')"
    using assms(2)
    by (auto simp: do_attack_def Let_def split: sum.splits option.splits if_splits)
  have k1: "ticker_inv w1" "timer_matches_mode w1 = timer_matches_mode w"
    using kept_inv[OF kept_ambient[OF a]] assms(1) by simp_all
  from r show ?thesis
  proof
    assume "start_hunting w1 = Inr w'"
    then show ?thesis using start_hunting_inv[OF k1(1)] k1(2) by simp
  next
    assume "\<exists>t c. attack_outcome t (execute_cmd exec c w1) = Inr w'"
    then obtain t c where o: "attack_outcome t (execute_cmd exec c w1) = Inr w'" by blast
    have "timers_kept w1 w'"
      using kept_trans[OF kept_execute_cmd kept_attack_outcome[OF o]] .
    then show ?thesis using kept_inv k1 by simp
  qed
qed

lemma outside_inv:
  "ticker_inv (w\<lparr>env := e\<rparr>) = ticker_inv w"
  "timer_matches_mode (w\<lparr>env := e\<rparr>) = timer_matches_mode w"
  using ticker_inv_cong[of "w\<lparr>env := e\<rparr>" w] by (simp_all add: timer_matches_mode_def)

lemma fire_inv:
  assumes "ticker_inv w" "fire ev w = Inr w'"
  shows "ticker_inv w' \<and> (ev \<noteq> AtInit \<and> timer_matches_mode w \<longrightarrow> timer_matches_mode w')"
proof (cases ev)
  case SetAlive
  then show ?thesis using assms set_alive_inv[OF assms(1), of w'] by simp
next
  case SetDead
  then show ?thesis using assms set_dead_inv[OF assms(1), of w'] by simp
next
  case AtInit
  then show ?thesis using assms at_init_inv[OF assms(1)] by auto
next
  case (DoPatrol r)
  then show ?thesis using assms do_patrol_inv[OF assms(1), of r w'] by simp
next
  case (DoHunt r)
  then show ?thesis using assms do_hunt_inv[OF assms(1), of r w'] by simp
next
  case (DoAttack exec r)
  then show ?thesis using assms do_attack_inv[OF assms(1), of exec r w'] by simp
next
  case (AtHit wpn a d)
  then show ?thesis using assms at_hit_inv[OF assms(1), of wpn a d w'] by simp
next
  case (AtNewArrival c)
  then show ?thesis using assms at_new_arrival_inv[OF assms(1), of c w'] by simp
next
  case (Outside f)
  then show ?thesis using assms outside_inv[where w = w and e = "f (env w)"] by auto
qed

lemma run_ticker_inv:
  "ticker_inv w \<Longrightarrow> run evs w = Inr w' \<Longrightarrow> ticker_inv w'"
proof (induction evs arbitrary: w)
  case Nil
  then show ?case by simp
next
  case (Cons ev evs)
  then obtain w1 where f: "fire ev w = Inr w1" and r: "run evs w1 = Inr w'"
    by (auto split: sum.splits)
  show ?case using Cons.IH[OF _ r] fire_inv[OF Cons.prems(1) f] by simp
qed

lemma run_mode_inv:
  "ticker_inv w \<Longrightarrow> timer_matches_mode w \<Longrightarrow> AtInit \<notin> set evs \<Longrightarrow> run evs w = Inr w' \<Longrightarrow>
   timer_matches_mode w'"
proof (induction evs arbitrary: w)
  case Nil
  then show ?case by simp
next
  case (Cons ev evs)
  then obtain w1 where f: "fire ev w = Inr w1" and r: "run evs w1 = Inr w'"
    by (auto split: sum.splits)
  have "ticker_inv w1 \<and> timer_matches_mode w1"
    using fire_inv[OF Cons.prems(1) f] Cons.prems(2,3) by auto
  then show ?case using Cons.IH[OF _ _ _ r] Cons.prems(3) by simp
qed

section \<open>Scenario runs\<close>

lemmas eval_defs =
  at_object_creation_def default_config_def set_alive_def set_dead_def start_patrolling_def
  start_hunting_def start_attacking_def start_idle_def set_ticker_def getattr_def mob_methods_def
  ticker_add_def ticker_remove_def move_to_def msg_def location_msg_contents_def
  at_hit_def take_damage_def at_new_arrival_def at_init_def Let_def

lemma drone0_alive_dead:
  "run [SetAlive, SetDead] drone0 =
     Inr (drone0\<lparr>desc := Some (desc_alive (cfg drone0)),
                 last_ticker_interval := Some 90, last_hook_key := Some ''set_alive'',
                 ndb_is_immortal := True, tickers := {(90, ''set_alive'')},
                 trace := [MoveTo 0, TickerAdd 6 ''do_patrol'', TickerRemove 6 ''do_patrol'',
                           TickerAdd 90 ''set_alive'']\<rparr>)"
  by (simp add: drone0_def eval_defs)

lemma creation_inv:
  "ticker_inv (at_object_creation k h loc e)"
  "timer_matches_mode (at_object_creation k h loc e)"
  by (simp_all add: ticker_inv_def timer_matches_mode_def at_object_creation_def)

lemma mode_timer_covers:
  "timer_matches_mode w \<Longrightarrow> tickers w \<subseteq> {mode_timer w}"
  by (simp add: timer_matches_mode_def mode_timer_def mode_of_def)

lemma last_timer_card: "tickers w \<subseteq> last_timer w \<Longrightarrow> card (tickers w) \<le> 1"
proof -
  assume a: "tickers w \<subseteq> last_timer w"
  have "finite (last_timer w) \<and> card (last_timer w) \<le> 1"
    by (simp add: last_timer_def split: option.splits)
  then show ?thesis
    using a card_mono[of "last_timer w" "tickers w"] by linarith
qed

section \<open>Timers over a history\<close>

text \<open>
  Claim C1, as the code has it. In every history that starts from a world in which the timers
  agree with the record and the mode (as at creation), the agent has at most one live timer,
  and that timer is the one \<open>_set_ticker\<close> recorded last. As long as no restart (\<open>at_init\<close>)
  has intervened, a live timer is the one of the current mode: \<open>patrolling_pace\<close> with
  \<open>do_patrol\<close>, \<open>hunting_pace\<close> with \<open>do_hunt\<close>, \<open>aggressive_pace\<close> with \<open>do_attack\<close>, and for a
  Dormant agent the reactivation timer, \<open>death_pace\<close> with \<open>set_alive\<close>.
\<close>

theorem timer_single_and_of_mode:
  assumes "ticker_inv w" and "timer_matches_mode w" and "run evs w = Inr w'"
  shows "card (tickers w') \<le> 1 \<and> tickers w' \<subseteq> last_timer w' \<and>
         (AtInit \<notin> set evs \<longrightarrow> tickers w' \<subseteq> {mode_timer w'})"
proof -
  have i: "ticker_inv w'"
    using run_ticker_inv[OF assms(1,3)] .
  then have s: "tickers w' \<subseteq> last_timer w'"
    by (simp add: ticker_inv_def)
  have "AtInit \<notin> set evs \<longrightarrow> tickers w' \<subseteq> {mode_timer w'}"
    using run_mode_inv[OF assms(1,2) _ assms(3)] mode_timer_covers by blast
  with s last_timer_card[OF s] show ?thesis by simp
qed

theorem timer_single_and_of_mode_witness:
  "ticker_inv drone0 \<and> timer_matches_mode drone0 \<and>
   \<not> isl (run [SetAlive, SetDead] drone0) \<and>
   card (tickers (projr (run [SetAlive, SetDead] drone0))) \<le> 1 \<and>
   tickers (projr (run [SetAlive, SetDead] drone0))
     \<subseteq> {mode_timer (projr (run [SetAlive, SetDead] drone0))}"
proof -
  have a: "ticker_inv drone0" "timer_matches_mode drone0"
    by (simp_all add: drone0_def creation_inv)
  have r: "run [SetAlive, SetDead] drone0 = Inr (projr (run [SetAlive, SetDead] drone0))"
    unfolding drone0_alive_dead by simp
  have n: "AtInit \<notin> set [SetAlive, SetDead]" by simp
  show ?thesis
    using timer_single_and_of_mode[OF a r] a n r
    by (metis sum.disc(2))
qed

text \<open>
  Claim C1 as stated fails: after activation and deactivation the agent is Dormant (dead,
  no mode flag set) and has a live timer, the reactivation timer.
\<close>

theorem dormant_with_timer_counterexample:
  "\<not> isl (run [SetAlive, SetDead] drone0) \<and>
   is_dead (projr (run [SetAlive, SetDead] drone0)) \<and>
   mode_of (projr (run [SetAlive, SetDead] drone0)) = Dormant \<and>
   tickers (projr (run [SetAlive, SetDead] drone0)) = {(90, ''set_alive'')}"
  unfolding drone0_alive_dead
  by (simp add: mode_of_def drone0_def at_object_creation_def)

section \<open>The state setters, when they return\<close>

lemma set_ticker_on:
  assumes "last_hook_resolves w" "h \<in> set mob_methods"
  shows "set_ticker (Some i) (Some h) stop w =
     Inr (w\<lparr>last_ticker_interval := Some i, last_hook_key := Some h,
            tickers := (tickers w - last_timer w) \<union> armed (Some i) (Some h) stop,
            trace := trace w @ cancel_effects w @ arm_effects (Some i) (Some h) stop\<rparr>)"
  using assms by (simp add: set_ticker_Inr_iff armed_def)

lemma start_patrolling_on:
  assumes "patrolling (cfg w)" "last_hook_resolves w"
  shows "start_patrolling w =
     Inr (w\<lparr>last_ticker_interval := Some (patrolling_pace (cfg w)),
            last_hook_key := Some ''do_patrol'',
            tickers := (tickers w - last_timer w)
                         \<union> armed (Some (patrolling_pace (cfg w))) (Some ''do_patrol'') False,
            trace := trace w @ cancel_effects w
                       @ arm_effects (Some (patrolling_pace (cfg w))) (Some ''do_patrol'') False,
            ndb_is_patrolling := True, ndb_is_hunting := False,
            ndb_is_attacking := False, health := full_health (cfg w)\<rparr>)"
  using assms by (simp add: start_patrolling_def set_ticker_on)

lemma start_hunting_on:
  assumes "hunting (cfg w)" "last_hook_resolves w"
  shows "start_hunting w =
     Inr (w\<lparr>last_ticker_interval := Some (hunting_pace (cfg w)),
            last_hook_key := Some ''do_hunt'',
            tickers := (tickers w - last_timer w)
                         \<union> armed (Some (hunting_pace (cfg w))) (Some ''do_hunt'') False,
            trace := trace w @ cancel_effects w
                       @ arm_effects (Some (hunting_pace (cfg w))) (Some ''do_hunt'') False,
            ndb_is_patrolling := False, ndb_is_hunting := True,
            ndb_is_attacking := False\<rparr>)"
  using assms by (simp add: start_hunting_def set_ticker_on)

lemma start_attacking_on:
  assumes "aggressive (cfg w)" "last_hook_resolves w"
  shows "start_attacking w =
     Inr (w\<lparr>last_ticker_interval := Some (aggressive_pace (cfg w)),
            last_hook_key := Some ''do_attack'',
            tickers := (tickers w - last_timer w)
                         \<union> armed (Some (aggressive_pace (cfg w))) (Some ''do_attack'') False,
            trace := trace w @ cancel_effects w
                       @ arm_effects (Some (aggressive_pace (cfg w))) (Some ''do_attack'') False,
            ndb_is_patrolling := False, ndb_is_hunting := False,
            ndb_is_attacking := True\<rparr>)"
  using assms by (simp add: start_attacking_def set_ticker_on)

lemma start_idle_on:
  assumes "last_hook_resolves w"
  shows "start_idle w =
     Inr (w\<lparr>last_ticker_interval := None, last_hook_key := None,
            tickers := tickers w - last_timer w,
            trace := trace w @ cancel_effects w\<rparr>)"
  using assms by (simp add: start_idle_def set_ticker_Inr_iff arm_effects_def)

lemma set_dead_on:
  assumes "last_hook_resolves w"
  shows "set_dead w =
     Inr (w\<lparr>is_dead := True, location := None,
            ndb_is_patrolling := False, ndb_is_attacking := False,
            ndb_is_hunting := False, ndb_is_immortal := True,
            last_ticker_interval := Some (death_pace (cfg w)),
            last_hook_key := Some ''set_alive'',
            tickers := (tickers w - last_timer w)
                         \<union> armed (Some (death_pace (cfg w))) (Some ''set_alive'') False,
            trace := trace w @ cancel_effects w
                       @ arm_effects (Some (death_pace (cfg w))) (Some ''set_alive'') False\<rparr>)"
proof -
  let ?w0 = "w\<lparr>is_dead := True, location := None,
          ndb_is_patrolling := False, ndb_is_attacking := False,
          ndb_is_hunting := False, ndb_is_immortal := True\<rparr>"
  have "last_hook_resolves ?w0"
    using assms by (simp add: last_hook_resolves_def last_timer_def)
  then show ?thesis
    by (simp add: set_dead_def set_ticker_on last_timer_def cancel_effects_def)
qed

lemma set_dead_resolves: "set_dead w = Inr w' \<Longrightarrow> last_hook_resolves w"
  by (simp add: set_dead_def set_ticker_Inr_iff last_hook_resolves_def last_timer_def)

lemma resolves_after_set_dead:
  "last_hook_resolves
     (w\<lparr>is_dead := True, location := None,
            ndb_is_patrolling := False, ndb_is_attacking := False,
            ndb_is_hunting := False, ndb_is_immortal := True,
            last_ticker_interval := Some (death_pace (cfg w)),
            last_hook_key := Some ''set_alive'',
            tickers := T, trace := tr\<rparr>)"
  by (simp add: last_hook_resolves_def last_timer_def)

section \<open>Deactivation and reactivation\<close>

text \<open>
  Claim C2, as the code has it. Whatever the prior state, \<open>set_dead\<close> (when the timer it
  cancels names a method, so that it returns) leaves the agent dead, with no mode flag set
  (Dormant), effectively immortal and with its location cleared; its health is not cleared
  but keeps the value it had.
\<close>

theorem set_dead_dormant_health_kept:
  assumes "last_hook_resolves w"
  shows "\<exists>w'. set_dead w = Inr w' \<and> is_dead w' \<and> mode_of w' = Dormant \<and>
              location w' = None \<and> ndb_is_immortal w' \<and> health w' = health w"
  using assms by (simp add: set_dead_on mode_of_def)

theorem set_dead_dormant_health_kept_witness:
  "last_hook_resolves drone0 \<and>
   (\<exists>w'. set_dead drone0 = Inr w' \<and> is_dead w' \<and> mode_of w' = Dormant \<and>
              location w' = None \<and> ndb_is_immortal w' \<and> health w' = Some 25)"
proof -
  have r: "last_hook_resolves drone0"
    by (simp add: last_hook_resolves_def last_timer_def drone0_def at_object_creation_def)
  have h: "health drone0 = Some 25"
    by (simp add: drone0_def at_object_creation_def)
  show ?thesis
    using set_dead_dormant_health_kept[OF r] r h by simp
qed

text \<open>
  Claim C2 as stated fails: an agent that is activated and then deactivated still has its
  health, 25.
\<close>

theorem set_dead_health_counterexample:
  "\<not> isl (run [SetAlive, SetDead] drone0) \<and>
   health (projr (run [SetAlive, SetDead] drone0)) = Some 25 \<and>
   health (projr (run [SetAlive, SetDead] drone0)) \<noteq> None"
  unfolding drone0_alive_dead
  by (simp add: drone0_def at_object_creation_def)

text \<open>
  Claim C3. After a death transition the reactivation timer (\<open>death_pace\<close>, \<open>set_alive\<close>) is
  live when \<open>death_pace\<close> is not zero, and \<open>set_alive\<close>, the hook it fires, returns with the
  health at \<open>full_health\<close>, the agent alive, and in mode Patrolling if it is patrol-capable;
  otherwise no mode flag is set (Dormant).
\<close>

theorem reactivation_restores:
  assumes "set_dead w = Inr w'"
  shows "(death_pace (cfg w) \<noteq> 0 \<longrightarrow> (death_pace (cfg w), ''set_alive'') \<in> tickers w') \<and>
         (\<exists>w''. set_alive w' = Inr w'' \<and> health w'' = full_health (cfg w) \<and>
                 \<not> is_dead w'' \<and>
                 mode_of w'' = (if patrolling (cfg w) then Patrolling else Dormant))"
proof -
  have r: "last_hook_resolves w"
    using assms by (rule set_dead_resolves)
  define w1 where "w1 = w'\<lparr>health := full_health (cfg w'), is_dead := False,
                 desc := Some (desc_alive (cfg w')),
                 ndb_is_immortal := immortal (cfg w'),
                 ndb_is_patrolling := patrolling (cfg w'),
                 location := Some (home (cfg w')),
                 trace := trace w' @ [MoveTo (home (cfg w'))]\<rparr>"
  have w': "w' = w\<lparr>is_dead := True, location := None,
            ndb_is_patrolling := False, ndb_is_attacking := False,
            ndb_is_hunting := False, ndb_is_immortal := True,
            last_ticker_interval := Some (death_pace (cfg w)),
            last_hook_key := Some ''set_alive'',
            tickers := (tickers w - last_timer w)
                         \<union> armed (Some (death_pace (cfg w))) (Some ''set_alive'') False,
            trace := trace w @ cancel_effects w
                       @ arm_effects (Some (death_pace (cfg w))) (Some ''set_alive'') False\<rparr>"
    using assms set_dead_on[OF r] by simp
  have t: "death_pace (cfg w) \<noteq> 0 \<longrightarrow> (death_pace (cfg w), ''set_alive'') \<in> tickers w'"
    by (simp add: w' armed_def)
  have s: "set_alive w' = (if patrolling (cfg w) then start_patrolling w1 else Inr w1)"
    by (simp add: set_alive_def move_to_def w1_def w')
  have r1: "last_hook_resolves w1"
    by (simp add: w1_def w' last_hook_resolves_def last_timer_def)
  have f: "cfg w1 = cfg w" "health w1 = full_health (cfg w)" "\<not> is_dead w1"
    "\<not> ndb_is_hunting w1" "\<not> ndb_is_attacking w1" "ndb_is_patrolling w1 = patrolling (cfg w)"
    by (simp_all add: w1_def w')
  have a: "\<exists>w''. set_alive w' = Inr w'' \<and> health w'' = full_health (cfg w) \<and>
                 \<not> is_dead w'' \<and>
                 mode_of w'' = (if patrolling (cfg w) then Patrolling else Dormant)"
  proof (cases "patrolling (cfg w)")
    case True
    then have "patrolling (cfg w1)" using f by simp
    from start_patrolling_on[OF this r1] True f show ?thesis
      by (simp add: s mode_of_def)
  next
    case False
    then show ?thesis using f by (simp add: s mode_of_def)
  qed
  from t a show ?thesis by simp
qed

theorem reactivation_restores_witness:
  "set_dead drone0 = Inr (projr (set_dead drone0)) \<and>
   (90, ''set_alive'') \<in> tickers (projr (set_dead drone0)) \<and>
   (\<exists>w''. set_alive (projr (set_dead drone0)) = Inr w'' \<and> health w'' = Some 25 \<and>
           \<not> is_dead w'' \<and> mode_of w'' = Patrolling)"
proof -
  have r: "set_dead drone0 = Inr (projr (set_dead drone0))"
    by (simp add: drone0_def eval_defs)
  have c: "death_pace (cfg drone0) = 90" "full_health (cfg drone0) = Some 25"
    "patrolling (cfg drone0)"
    by (simp_all add: drone0_def at_object_creation_def default_config_def)
  show ?thesis
    using reactivation_restores[OF r] r c by simp
qed

text \<open>
  Claim C8, as the code has it. \<open>set_dead\<close> on an agent that \<open>set_dead\<close> has deactivated
  returns, and leaves every attribute of the agent and the set of live timers as they were;
  only the trace grows. It is not a no-op for the ticker handler: when \<open>death_pace\<close> is not
  zero the reactivation timer is cancelled once more and then added again.
\<close>

theorem set_dead_twice:
  assumes "set_dead w = Inr w'"
  shows "\<exists>w''. set_dead w' = Inr w'' \<and> w''\<lparr>trace := trace w'\<rparr> = w' \<and>
           trace w'' = trace w' @
             (if death_pace (cfg w) \<noteq> 0
              then [TickerRemove (death_pace (cfg w)) ''set_alive'',
                    TickerAdd (death_pace (cfg w)) ''set_alive'']
              else [])"
proof -
  have r: "last_hook_resolves w"
    using assms by (rule set_dead_resolves)
  have w': "w' = w\<lparr>is_dead := True, location := None,
            ndb_is_patrolling := False, ndb_is_attacking := False,
            ndb_is_hunting := False, ndb_is_immortal := True,
            last_ticker_interval := Some (death_pace (cfg w)),
            last_hook_key := Some ''set_alive'',
            tickers := (tickers w - last_timer w)
                         \<union> armed (Some (death_pace (cfg w))) (Some ''set_alive'') False,
            trace := trace w @ cancel_effects w
                       @ arm_effects (Some (death_pace (cfg w))) (Some ''set_alive'') False\<rparr>"
    using assms set_dead_on[OF r] by simp
  have r': "last_hook_resolves w'"
    unfolding w' by (rule resolves_after_set_dead)
  show ?thesis
    unfolding set_dead_on[OF r']
    by (auto simp: w' last_timer_def armed_def cancel_effects_def arm_effects_def)
qed

theorem set_dead_twice_witness:
  "set_dead drone0 = Inr (projr (set_dead drone0)) \<and>
   (\<exists>w''. set_dead (projr (set_dead drone0)) = Inr w'' \<and>
      w''\<lparr>trace := trace (projr (set_dead drone0))\<rparr> = projr (set_dead drone0) \<and>
      trace w'' = trace (projr (set_dead drone0)) @
             [TickerRemove 90 ''set_alive'', TickerAdd 90 ''set_alive''])"
proof -
  have r: "set_dead drone0 = Inr (projr (set_dead drone0))"
    by (simp add: drone0_def eval_defs)
  have c: "death_pace (cfg drone0) = 90"
    by (simp add: drone0_def at_object_creation_def default_config_def)
  show ?thesis
    using set_dead_twice[OF r] r c by simp
qed

text \<open>
  Claim C8 as stated fails: the second of two deactivations cancels a timer again.
\<close>

theorem set_dead_twice_counterexample:
  "\<not> isl (run [SetAlive, SetDead, SetDead] drone0) \<and>
   trace (projr (run [SetAlive, SetDead, SetDead] drone0)) =
     [MoveTo 0, TickerAdd 6 ''do_patrol'',
      TickerRemove 6 ''do_patrol'', TickerAdd 90 ''set_alive'',
      TickerRemove 90 ''set_alive'', TickerAdd 90 ''set_alive'']"
  by (simp add: drone0_def eval_defs)

section \<open>Being hit\<close>

lemma resolves_cong:
  "last_ticker_interval w' = last_ticker_interval w \<Longrightarrow> last_hook_key w' = last_hook_key w \<Longrightarrow>
   last_hook_resolves w' = last_hook_resolves w"
  by (simp add: last_hook_resolves_def last_timer_def)

lemma drone_alive_eq:
  "set_alive drone0 = Inr drone_alive"
  "drone_alive =
     drone0\<lparr>location := Some 0, is_dead := False,
            desc := Some (desc_alive (cfg drone0)),
            last_ticker_interval := Some 6, last_hook_key := Some ''do_patrol'',
            ndb_is_patrolling := True, tickers := {(6, ''do_patrol'')},
            trace := [MoveTo 0, TickerAdd 6 ''do_patrol'']\<rparr>"
  by (simp_all add: drone_alive_def drone0_def eval_defs)

lemma at_hit_mortal_plain:
  assumes "health w = Some h" "\<not> ndb_is_immortal w" "\<not> magic wpn"
    "damage_resistance (cfg w) \<noteq> 0"
  shows "at_hit wpn a d w =
    (let w1 = (msg a (Lit (weapon_ineffective_msg (cfg w))) w)
                \<lparr>health := Some (h - d / damage_resistance (cfg w))\<rparr>
     in if h - d / damage_resistance (cfg w) \<le> 0
        then set_dead (msg a (Lit (death_msg (cfg w))) w1)
        else if aggressive (cfg w) \<and> \<not> ndb_is_attacking w then start_attacking w1
        else Inr w1)"
  using assms by (simp add: at_hit_def take_damage_def msg_def Let_def)

text \<open>
  Claim C4. A hit with a weapon that is not magic on a mortal agent with a health value
  and a damage resistance other than zero returns, and the health goes down by the damage
  divided by \<open>damage_resistance\<close>. When that quotient is below the health, the agent is not
  killed (it is as dead or alive as before and stays where it is), and an aggressive agent is
  in mode Attacking afterwards. Numbers are exact rationals.
\<close>

theorem at_hit_resisted:
  assumes "health w = Some h" and "\<not> ndb_is_immortal w" and "\<not> magic wpn"
    and "damage_resistance (cfg w) \<noteq> 0" and "last_hook_resolves w"
  shows "\<exists>w'. at_hit wpn a d w = Inr w' \<and>
           health w' = Some (h - d / damage_resistance (cfg w)) \<and>
           (d / damage_resistance (cfg w) < h \<longrightarrow>
              is_dead w' = is_dead w \<and> location w' = location w \<and>
              (aggressive (cfg w) \<longrightarrow> mode_of w' = Attacking))"
proof -
  define w1 where "w1 = (msg a (Lit (weapon_ineffective_msg (cfg w))) w)
                \<lparr>health := Some (h - d / damage_resistance (cfg w))\<rparr>"
  have f: "cfg w1 = cfg w" "is_dead w1 = is_dead w" "location w1 = location w"
    "ndb_is_attacking w1 = ndb_is_attacking w"
    "health w1 = Some (h - d / damage_resistance (cfg w))"
    by (simp_all add: w1_def msg_def)
  have r1: "last_hook_resolves w1"
    using assms(5) resolves_cong[of w1 w] by (simp add: w1_def msg_def)
  have rm: "last_hook_resolves (msg a (Lit (death_msg (cfg w))) w1)"
    using r1 resolves_cong[of "msg a (Lit (death_msg (cfg w))) w1" w1] by (simp add: msg_def)
  have e: "at_hit wpn a d w =
     (if h - d / damage_resistance (cfg w) \<le> 0
        then set_dead (msg a (Lit (death_msg (cfg w))) w1)
        else if aggressive (cfg w) \<and> \<not> ndb_is_attacking w then start_attacking w1
        else Inr w1)"
    using at_hit_mortal_plain[OF assms(1-4)] by (simp add: w1_def Let_def)
  show ?thesis
  proof (cases "h - d / damage_resistance (cfg w) \<le> 0")
    case True
    then have "at_hit wpn a d w = set_dead (msg a (Lit (death_msg (cfg w))) w1)"
      by (simp add: e)
    then show ?thesis
      unfolding set_dead_on[OF rm] using f True by (simp add: msg_def)
  next
    case False
    show ?thesis
    proof (cases "aggressive (cfg w) \<and> \<not> ndb_is_attacking w")
      case True
      then have "aggressive (cfg w1)" using f by simp
      from start_attacking_on[OF this r1] True False f show ?thesis
        by (simp add: e mode_of_def)
    next
      case na: False
      then show ?thesis
        using False f by (auto simp: e mode_of_def)
    qed
  qed
qed

theorem at_hit_resisted_witness:
  "health drone_alive = Some 25 \<and> \<not> ndb_is_immortal drone_alive \<and>
   damage_resistance (cfg drone_alive) = 100 \<and> last_hook_resolves drone_alive \<and>
   (\<exists>w'. at_hit \<lparr>magic = False\<rparr> 7 50 drone_alive = Inr w' \<and>
          health w' = Some (49 / 2) \<and> \<not> is_dead w' \<and> location w' = Some 0 \<and>
          mode_of w' = Attacking)"
proof -
  have a: "health drone_alive = Some 25" "\<not> ndb_is_immortal drone_alive"
    "\<not> magic \<lparr>magic = False\<rparr>" "damage_resistance (cfg drone_alive) \<noteq> 0"
    "last_hook_resolves drone_alive"
    by (simp_all add: drone_alive_eq(2) drone0_def at_object_creation_def default_config_def
        last_hook_resolves_def last_timer_def)
  have c: "damage_resistance (cfg drone_alive) = 100" "aggressive (cfg drone_alive)"
    "\<not> is_dead drone_alive" "location drone_alive = Some 0"
    by (simp_all add: drone_alive_eq(2) drone0_def at_object_creation_def default_config_def)
  show ?thesis
    using at_hit_resisted[OF a, of 7 50] a c by simp
qed

text \<open>
  Claim C5, as the code has it. A hit with a magic weapon on a mortal agent that stands
  somewhere, with damage that brings the health to zero or below, returns with the agent
  dead, Dormant and without location, and the health at its value below zero. The effects
  are, in this order: the hit message is broadcast in the agent's location with nobody
  excluded, the attacker receives the death message, and the timer is replaced by the
  reactivation timer. No defeat message is broadcast.
\<close>

theorem at_hit_magic_kill:
  assumes "health w = Some h" and "\<not> ndb_is_immortal w" and "magic wpn"
    and "location w = Some l" and "h - d \<le> 0" and "last_hook_resolves w"
  shows "\<exists>w'. at_hit wpn a d w = Inr w' \<and> is_dead w' \<and> mode_of w' = Dormant \<and>
           location w' = None \<and> health w' = Some (h - d) \<and>
           trace w' = trace w @
             [MsgContents l (Lit (hit_msg (cfg w))) [], Msg a (Lit (death_msg (cfg w)))] @
             cancel_effects w @
             arm_effects (Some (death_pace (cfg w))) (Some ''set_alive'') False"
proof -
  define w1 where "w1 = w\<lparr>trace := trace w @ [MsgContents l (Lit (hit_msg (cfg w))) []],
                          health := Some (h - d)\<rparr>"
  define w2 where "w2 = msg a (Lit (death_msg (cfg w))) w1"
  have e: "at_hit wpn a d w = set_dead w2"
    using assms(1-5)
    by (simp add: at_hit_def take_damage_def location_msg_contents_def w1_def w2_def)
  have r2: "last_hook_resolves w2"
    using assms(6) resolves_cong[of w2 w] by (simp add: w2_def w1_def msg_def)
  show ?thesis
    by (simp add: e set_dead_on[OF r2] mode_of_def)
       (simp add: w2_def w1_def msg_def cancel_effects_def)
qed

theorem at_hit_magic_kill_witness:
  "health drone_alive = Some 25 \<and> \<not> ndb_is_immortal drone_alive \<and>
   location drone_alive = Some 0 \<and> last_hook_resolves drone_alive \<and>
   (\<exists>w'. at_hit \<lparr>magic = True\<rparr> 7 30 drone_alive = Inr w' \<and> is_dead w' \<and>
          mode_of w' = Dormant \<and> location w' = None \<and> health w' = Some (- 5))"
proof -
  have a: "health drone_alive = Some 25" "\<not> ndb_is_immortal drone_alive"
    "magic \<lparr>magic = True\<rparr>" "location drone_alive = Some 0" "(25::rat) - 30 \<le> 0"
    "last_hook_resolves drone_alive"
    by (simp_all add: drone_alive_eq(2) drone0_def at_object_creation_def default_config_def
        last_hook_resolves_def last_timer_def)
  show ?thesis
    using at_hit_magic_kill[OF a, of 7] a by auto
qed

text \<open>
  Claim C5 as stated fails: the complete list of effects of the killing hit holds one
  broadcast, the hit message with nobody excluded, and no defeat broadcast.
\<close>

theorem at_hit_no_defeat_broadcast_counterexample:
  "\<not> isl (at_hit \<lparr>magic = True\<rparr> 7 30 drone_alive) \<and>
   health (projr (at_hit \<lparr>magic = True\<rparr> 7 30 drone_alive)) = Some (- 5) \<and>
   trace (projr (at_hit \<lparr>magic = True\<rparr> 7 30 drone_alive)) =
     [MoveTo 0, TickerAdd 6 ''do_patrol'',
      MsgContents 0 (Lit ''drone jerks as bullets ricochet off its chassis!'') [],
      Msg 7 (Lit ''drone sparks violently, collapsing into a pool of molten alloy.''),
      TickerRemove 6 ''do_patrol'', TickerAdd 90 ''set_alive'']"
  by (simp add: drone_alive_eq(2) drone0_def eval_defs)

section \<open>Dead agents\<close>

lemma start_idle_keeps:
  "start_idle w = Inr w' \<Longrightarrow>
     is_dead w' = is_dead w \<and> ndb_is_immortal w' = ndb_is_immortal w"
  using set_ticker_modes[of None None True w w'] by (simp add: start_idle_def)

lemma start_patrolling_keeps:
  assumes "start_patrolling w = Inr w'"
  shows "is_dead w' = is_dead w \<and> ndb_is_immortal w' = ndb_is_immortal w"
proof (cases "patrolling (cfg w)")
  case False
  then show ?thesis using assms start_idle_keeps by (simp add: start_patrolling_def)
next
  case True
  then obtain w1 where
    s: "set_ticker (Some (patrolling_pace (cfg w))) (Some ''do_patrol'') False w = Inr w1"
    and w': "w' = w1\<lparr>ndb_is_patrolling := True, ndb_is_hunting := False,
                     ndb_is_attacking := False, health := full_health (cfg w1)\<rparr>"
    using assms by (auto simp: start_patrolling_def split: sum.splits)
  show ?thesis using set_ticker_modes[OF s] by (simp add: w')
qed

lemma start_hunting_keeps:
  assumes "start_hunting w = Inr w'"
  shows "is_dead w' = is_dead w \<and> ndb_is_immortal w' = ndb_is_immortal w"
proof (cases "hunting (cfg w)")
  case False
  then show ?thesis using assms start_patrolling_keeps by (simp add: start_hunting_def)
next
  case True
  then obtain w1 where
    s: "set_ticker (Some (hunting_pace (cfg w))) (Some ''do_hunt'') False w = Inr w1"
    and w': "w' = w1\<lparr>ndb_is_patrolling := False, ndb_is_hunting := True,
                     ndb_is_attacking := False\<rparr>"
    using assms by (auto simp: start_hunting_def split: sum.splits)
  show ?thesis using set_ticker_modes[OF s] by (simp add: w')
qed

lemma start_attacking_keeps:
  assumes "start_attacking w = Inr w'"
  shows "is_dead w' = is_dead w \<and> ndb_is_immortal w' = ndb_is_immortal w \<and>
         (aggressive (cfg w) \<longrightarrow> health w' = health w)"
proof (cases "aggressive (cfg w)")
  case False
  then show ?thesis using assms start_hunting_keeps by (simp add: start_attacking_def)
next
  case True
  then obtain w1 where
    s: "set_ticker (Some (aggressive_pace (cfg w))) (Some ''do_attack'') False w = Inr w1"
    and w': "w' = w1\<lparr>ndb_is_patrolling := False, ndb_is_hunting := False,
                     ndb_is_attacking := True\<rparr>"
    using assms by (auto simp: start_attacking_def split: sum.splits)
  show ?thesis using set_ticker_modes[OF s] by (simp add: w')
qed

lemma set_dead_keeps:
  assumes "set_dead w = Inr w'"
  shows "is_dead w' \<and> ndb_is_immortal w' \<and> health w' = health w"
  using set_ticker_modes[OF assms[unfolded set_dead_def]] by simp

lemma set_alive_alive: "set_alive w = Inr w' \<Longrightarrow> \<not> is_dead w'"
  using start_patrolling_keeps
  by (auto simp: set_alive_def Let_def move_to_def split: if_splits)

lemma kept_dead:
  "timers_kept w w' \<Longrightarrow> is_dead w' = is_dead w \<and> ndb_is_immortal w' = ndb_is_immortal w"
  by (simp add: timers_kept_def)

lemma at_hit_immortal:
  assumes "ndb_is_immortal w" "at_hit wpn a d w = Inr w'"
  shows "health w' = health w \<and> ndb_is_immortal w'"
proof (cases "health w")
  case None
  then show ?thesis using assms by (auto simp: at_hit_def msg_def)
next
  case (Some h)
  then have r: "(if h \<le> 0 then set_dead (msg a (Lit (death_msg (cfg w))) w)
             else if aggressive (cfg w) \<and> \<not> ndb_is_attacking w then start_attacking w
             else Inr w) = Inr w'"
    using assms by (simp add: at_hit_def take_damage_def)
  show ?thesis
  proof (cases "h \<le> 0")
    case True
    then show ?thesis
      using r set_dead_keeps[of "msg a (Lit (death_msg (cfg w))) w" w']
      by (simp add: msg_def)
  next
    case False
    then show ?thesis
      using r assms(1) start_attacking_keeps[of w w'] by (auto split: if_splits)
  qed
qed

lemma at_hit_dead:
  assumes "is_dead w \<longrightarrow> ndb_is_immortal w" "at_hit wpn a d w = Inr w'"
  shows "is_dead w' \<longrightarrow> ndb_is_immortal w'"
proof (cases "health w")
  case None
  then show ?thesis using assms by (auto simp: at_hit_def msg_def)
next
  case (Some h)
  then obtain w1 and h1 :: rat where t: "take_damage wpn a d h w = Inr w1"
    and r: "(if h1 \<le> 0 then set_dead (msg a (Lit (death_msg (cfg w1))) w1)
             else if aggressive (cfg w1) \<and> \<not> ndb_is_attacking w1 then start_attacking w1
             else Inr w1) = Inr w'"
    using assms(2) by (auto simp: at_hit_def split: sum.splits option.splits)
  have k: "is_dead w1 \<longrightarrow> ndb_is_immortal w1"
    using kept_dead[OF kept_take_damage[OF t]] assms(1) by simp
  show ?thesis
    using r k set_dead_keeps[of "msg a (Lit (death_msg (cfg w1))) w1" w']
      start_attacking_keeps[of w1 w']
    by (auto split: if_splits)
qed

lemma hunt_exits_dead:
  assumes "hunt_exits exits w = Inr w'"
  shows "is_dead w' = is_dead w \<and> ndb_is_immortal w' = ndb_is_immortal w"
  using assms
proof (induction exits)
  case Nil
  then show ?case using start_patrolling_keeps by simp
next
  case (Cons ex exits)
  then show ?case
    by (auto simp: move_to_def split: sum.splits option.splits)
qed

lemma do_patrol_dead:
  assumes "do_patrol r w = Inr w'"
  shows "is_dead w' = is_dead w \<and> ndb_is_immortal w' = ndb_is_immortal w"
proof -
  obtain w1 where a: "ambient r w = Inr w1"
    and r: "start_attacking w1 = Inr w' \<or> patrol_move r w1 = Inr w'"
    using assms
    by (auto simp: do_patrol_def split: sum.splits option.splits if_splits)
  show ?thesis
    using r kept_dead[OF kept_ambient[OF a]] start_attacking_keeps[of w1 w']
      kept_dead[OF kept_patrol_move, of r w1 w']
    by auto
qed

lemma do_hunt_dead:
  assumes "do_hunt r w = Inr w'"
  shows "is_dead w' = is_dead w \<and> ndb_is_immortal w' = ndb_is_immortal w"
proof -
  obtain w1 where a: "ambient r w = Inr w1"
    and r: "start_attacking w1 = Inr w' \<or> hunt_move w1 = Inr w'"
    using assms
    by (auto simp: do_hunt_def split: sum.splits option.splits if_splits)
  have h: "hunt_move w1 = Inr w' \<Longrightarrow>
       is_dead w' = is_dead w1 \<and> ndb_is_immortal w' = ndb_is_immortal w1"
    using hunt_exits_dead[of _ w1 w']
    by (auto simp: hunt_move_def move_to_def split: sum.splits if_splits)
  show ?thesis
    using r kept_dead[OF kept_ambient[OF a]] start_attacking_keeps[of w1 w'] h
    by auto
qed

lemma do_attack_dead:
  assumes "do_attack exec r w = Inr w'"
  shows "is_dead w' = is_dead w \<and> ndb_is_immortal w' = ndb_is_immortal w"
proof -
  obtain w1 where a: "ambient r w = Inr w1"
    and r: "start_hunting w1 = Inr w' \<or>
            (\<exists>t c. attack_outcome t (execute_cmd exec c w1) = Inr w')"
    using assms
    by (auto simp: do_attack_def Let_def split: sum.splits option.splits if_splits)
  from r show ?thesis
  proof
    assume "start_hunting w1 = Inr w'"
    then show ?thesis
      using kept_dead[OF kept_ambient[OF a]] start_hunting_keeps[of w1 w'] by simp
  next
    assume "\<exists>t c. attack_outcome t (execute_cmd exec c w1) = Inr w'"
    then obtain t c where o: "attack_outcome t (execute_cmd exec c w1) = Inr w'" by blast
    have "timers_kept w w'"
      using kept_trans[OF kept_ambient[OF a]
          kept_trans[OF kept_execute_cmd kept_attack_outcome[OF o]]] .
    then show ?thesis by (rule kept_dead)
  qed
qed

lemma fire_dead:
  assumes "is_dead w \<longrightarrow> ndb_is_immortal w" "fire ev w = Inr w'"
  shows "is_dead w' \<longrightarrow> ndb_is_immortal w'"
proof (cases ev)
  case SetAlive
  then show ?thesis using assms(2) set_alive_alive[of w w'] by simp
next
  case SetDead
  then show ?thesis using assms(2) set_dead_keeps[of w w'] by simp
next
  case AtInit
  then show ?thesis using assms(2) by (auto simp: at_init_def)
next
  case (DoPatrol r)
  then show ?thesis using assms do_patrol_dead[of r w w'] by simp
next
  case (DoHunt r)
  then show ?thesis using assms do_hunt_dead[of r w w'] by simp
next
  case (DoAttack exec r)
  then show ?thesis using assms do_attack_dead[of exec r w w'] by simp
next
  case (AtHit wpn a d)
  then show ?thesis using assms at_hit_dead[of w wpn a d w'] by simp
next
  case (AtNewArrival c)
  then show ?thesis
    using assms start_attacking_keeps[of w w']
    by (auto simp: at_new_arrival_def split: if_splits)
next
  case (Outside f)
  then show ?thesis using assms by auto
qed

lemma run_dead:
  "is_dead w \<longrightarrow> ndb_is_immortal w \<Longrightarrow> run evs w = Inr w' \<Longrightarrow>
   is_dead w' \<longrightarrow> ndb_is_immortal w'"
proof (induction evs arbitrary: w)
  case Nil
  then show ?case by simp
next
  case (Cons ev evs)
  then obtain w1 where f: "fire ev w = Inr w1" and r: "run evs w1 = Inr w'"
    by (auto split: sum.splits)
  show ?case using Cons.IH[OF fire_dead[OF Cons.prems(1) f] r] .
qed

text \<open>
  Claim C10. Start from a world that \<open>at_init\<close> has just restored or \<open>set_dead\<close> has just
  produced, and let any history follow. Whenever the agent is dead at the end, its runtime
  flag \<open>ndb.is_immortal\<close> is set, whatever \<open>db.immortal\<close> says, and every \<open>at_hit\<close> that
  returns leaves \<open>db.health\<close> as it was; \<open>set_dead\<close> itself does not change the health.
\<close>

theorem dead_is_immortal:
  assumes "w0 = at_init w \<or> set_dead w = Inr w0" and "run evs w0 = Inr w'" and "is_dead w'"
  shows "ndb_is_immortal w' \<and>
         (\<forall>wpn a d w''. at_hit wpn a d w' = Inr w'' \<longrightarrow> health w'' = health w') \<and>
         (set_dead w = Inr w0 \<longrightarrow> health w0 = health w)"
proof -
  have "is_dead w0 \<longrightarrow> ndb_is_immortal w0"
    using assms(1) set_dead_keeps[of w w0] by (auto simp: at_init_def)
  then have i: "ndb_is_immortal w'"
    using run_dead[OF _ assms(2)] assms(3) by simp
  then show ?thesis
    using at_hit_immortal[OF i] set_dead_keeps[of w w0] by blast
qed

theorem dead_is_immortal_witness:
  "\<not> immortal (cfg drone0) \<and>
   run [AtHit \<lparr>magic = False\<rparr> 7 50] (at_init drone0)
     = Inr (projr (run [AtHit \<lparr>magic = False\<rparr> 7 50] (at_init drone0))) \<and>
   is_dead (projr (run [AtHit \<lparr>magic = False\<rparr> 7 50] (at_init drone0))) \<and>
   ndb_is_immortal (projr (run [AtHit \<lparr>magic = False\<rparr> 7 50] (at_init drone0))) \<and>
   health (projr (run [AtHit \<lparr>magic = False\<rparr> 7 50] (at_init drone0))) = Some 25"
proof -
  let ?w' = "projr (run [AtHit \<lparr>magic = False\<rparr> 7 50] (at_init drone0))"
  have a: "at_init drone0 = at_init drone0 \<or> set_dead drone0 = Inr (at_init drone0)"
    by simp
  have r: "run [AtHit \<lparr>magic = False\<rparr> 7 50] (at_init drone0) = Inr ?w'"
    by (simp add: drone0_def eval_defs)
  have d: "is_dead ?w'" "health ?w' = Some 25" "\<not> immortal (cfg drone0)"
    by (simp_all add: drone0_def eval_defs)
  show ?thesis
    using dead_is_immortal[OF a r d(1)] r d by simp
qed

section \<open>Ticks\<close>

lemma ambient_frame:
  assumes "ambient r w = Inr w1"
  shows "w1\<lparr>trace := trace w\<rparr> = w"
  using assms
  by (auto simp: ambient_def location_msg_contents_def split: if_splits option.splits)

lemma ambient_fields:
  assumes "ambient r w = Inr w1"
  shows "cfg w1 = cfg w" "env w1 = env w" "location w1 = location w"
    "last_hook_resolves w1 = last_hook_resolves w"
proof -
  have e: "w1\<lparr>trace := trace w\<rparr> = w" using assms by (rule ambient_frame)
  show "cfg w1 = cfg w" using arg_cong[OF e, of cfg] by simp
  show "env w1 = env w" using arg_cong[OF e, of env] by simp
  show "location w1 = location w" using arg_cong[OF e, of location] by simp
  have "last_ticker_interval w1 = last_ticker_interval w" "last_hook_key w1 = last_hook_key w"
    using arg_cong[OF e, of last_ticker_interval] arg_cong[OF e, of last_hook_key] by simp_all
  then show "last_hook_resolves w1 = last_hook_resolves w" by (rule resolves_cong)
qed

lemma ambient_nowhere: "location w = None \<Longrightarrow> ambient r w = Inr w1 \<Longrightarrow> w1 = w"
  by (auto simp: ambient_def location_msg_contents_def split: if_splits)

lemma find_target_env: "env w' = env w \<Longrightarrow> find_target loc w' = find_target loc w"
  by (cases loc) (simp_all add: find_target_def)

lemma tick_nowhere:
  assumes "location w = None"
  shows "isl (do_patrol r w)" "isl (do_hunt r w)" "isl (do_attack exec r w)"
proof -
  have a: "ambient r w = Inr w \<or> isl (ambient r w)"
    using assms by (simp add: ambient_def location_msg_contents_def)
  have f: "find_target (location w) w = Inl (AttributeError ''contents_get'')"
    using assms by (simp add: find_target_def)
  have t: "traversable_exits w = Inl (AttributeError ''exits'')"
    using assms by (simp add: traversable_exits_def)
  show "isl (do_patrol r w)"
    using a f t by (auto simp: do_patrol_def patrol_move_def split: sum.splits)
  show "isl (do_hunt r w)"
    using a f t by (auto simp: do_hunt_def hunt_move_def split: sum.splits)
  show "isl (do_attack exec r w)"
    using a f by (auto simp: do_attack_def split: sum.splits)
qed

text \<open>
  Claim C6, as the code has it. After \<open>set_dead\<close> the only timer that can be live is the
  reactivation timer, so no patrol, hunt or attack tick is scheduled for the deactivated
  agent. The ticks themselves do not look at the Dormant state: called on the deactivated
  agent, which has no location, each of them raises. The death transition is not guarded
  either: \<open>at_hit\<close> on the deactivated agent, when the health it kept is zero or below,
  notifies the attacker and applies \<open>set_dead\<close> once more, and returns.
\<close>

theorem ticks_after_set_dead:
  assumes "ticker_inv w" and "set_dead w = Inr w'"
  shows "tickers w' \<subseteq> {(death_pace (cfg w), ''set_alive'')} \<and>
         isl (do_patrol r w') \<and> isl (do_hunt r w') \<and> isl (do_attack exec r w') \<and>
         (\<forall>h. health w = Some h \<and> h \<le> 0 \<longrightarrow>
            at_hit wpn a d w' = set_dead (msg a (Lit (death_msg (cfg w))) w') \<and>
            \<not> isl (at_hit wpn a d w'))"
proof -
  have r: "last_hook_resolves w"
    using assms(2) by (rule set_dead_resolves)
  have w': "w' = w\<lparr>is_dead := True, location := None,
            ndb_is_patrolling := False, ndb_is_attacking := False,
            ndb_is_hunting := False, ndb_is_immortal := True,
            last_ticker_interval := Some (death_pace (cfg w)),
            last_hook_key := Some ''set_alive'',
            tickers := (tickers w - last_timer w)
                         \<union> armed (Some (death_pace (cfg w))) (Some ''set_alive'') False,
            trace := trace w @ cancel_effects w
                       @ arm_effects (Some (death_pace (cfg w))) (Some ''set_alive'') False\<rparr>"
    using assms(2) set_dead_on[OF r] by simp
  have f: "location w' = None" "ndb_is_immortal w'" "health w' = health w" "cfg w' = cfg w"
    by (simp_all add: w')
  have t: "tickers w' \<subseteq> {(death_pace (cfg w), ''set_alive'')}"
    using set_dead_inv[OF assms] by (simp add: timer_matches_mode_def w')
  have r': "last_hook_resolves w'"
    unfolding w' by (rule resolves_after_set_dead)
  have rm: "last_hook_resolves (msg a (Lit (death_msg (cfg w))) w')"
    using r' resolves_cong[of "msg a (Lit (death_msg (cfg w))) w'" w'] by (simp add: msg_def)
  have h: "\<forall>h. health w = Some h \<and> h \<le> 0 \<longrightarrow>
            at_hit wpn a d w' = set_dead (msg a (Lit (death_msg (cfg w))) w') \<and>
            \<not> isl (at_hit wpn a d w')"
    using f set_dead_on[OF rm] by (simp add: at_hit_def take_damage_def)
  from t h tick_nowhere[OF f(1)] show ?thesis by blast
qed

lemma drone_killed_eq:
  "drone_killed =
     drone0\<lparr>health := Some (- 5), desc := Some (desc_alive (cfg drone0)),
            last_ticker_interval := Some 90, last_hook_key := Some ''set_alive'',
            ndb_is_immortal := True, tickers := {(90, ''set_alive'')},
            trace := [MoveTo 0, TickerAdd 6 ''do_patrol'',
                      MsgContents 0 (Lit (hit_msg (cfg drone0))) [],
                      Msg 7 (Lit (death_msg (cfg drone0))),
                      TickerRemove 6 ''do_patrol'', TickerAdd 90 ''set_alive'']\<rparr>"
  by (simp add: drone_killed_def drone_alive_eq(2) drone0_def eval_defs)

theorem ticks_after_set_dead_witness:
  "ticker_inv drone_killed \<and> set_dead drone_killed = Inr (projr (set_dead drone_killed)) \<and>
   health drone_killed = Some (- 5) \<and>
   tickers (projr (set_dead drone_killed)) \<subseteq> {(90, ''set_alive'')} \<and>
   isl (do_patrol rnd0 (projr (set_dead drone_killed))) \<and>
   isl (do_hunt rnd0 (projr (set_dead drone_killed))) \<and>
   isl (do_attack knock_out rnd0 (projr (set_dead drone_killed))) \<and>
   at_hit \<lparr>magic = False\<rparr> 7 1 (projr (set_dead drone_killed)) =
     set_dead (msg 7 (Lit (death_msg (cfg drone_killed))) (projr (set_dead drone_killed))) \<and>
   \<not> isl (at_hit \<lparr>magic = False\<rparr> 7 1 (projr (set_dead drone_killed)))"
proof -
  have a: "ticker_inv drone_killed"
    by (simp add: drone_killed_eq ticker_inv_def last_timer_def mob_methods_def)
  have r: "set_dead drone_killed = Inr (projr (set_dead drone_killed))"
    by (simp add: drone_killed_eq drone0_def eval_defs)
  have c: "death_pace (cfg drone_killed) = 90" "health drone_killed = Some (- 5)"
    by (simp_all add: drone_killed_eq drone0_def at_object_creation_def default_config_def)
  note t = ticks_after_set_dead[OF a r, of rnd0 knock_out "\<lparr>magic = False\<rparr>" 7 1,
      unfolded c(1)]
  have h: "health drone_killed = Some (- 5) \<and> (- 5::rat) \<le> 0"
    using c by simp
  from t h have "at_hit \<lparr>magic = False\<rparr> 7 1 (projr (set_dead drone_killed)) =
     set_dead (msg 7 (Lit (death_msg (cfg drone_killed))) (projr (set_dead drone_killed))) \<and>
   \<not> isl (at_hit \<lparr>magic = False\<rparr> 7 1 (projr (set_dead drone_killed)))"
    by blast
  with t a r c show ?thesis by blast
qed

text \<open>
  Claim C6 as stated fails. An agent killed by a magic hit and hit again goes through the
  death transition a second time: the attacker is notified twice and the reactivation
  timer is cancelled and added again. And a patrol tick on a deactivated agent is not a
  no-op: it raises.
\<close>

theorem death_twice_counterexample:
  "\<not> isl (run [SetAlive, AtHit \<lparr>magic = True\<rparr> 7 30, AtHit \<lparr>magic = True\<rparr> 7 30] drone0) \<and>
   trace (projr (run [SetAlive, AtHit \<lparr>magic = True\<rparr> 7 30, AtHit \<lparr>magic = True\<rparr> 7 30]
                   drone0)) =
     [MoveTo 0, TickerAdd 6 ''do_patrol'',
      MsgContents 0 (Lit ''drone jerks as bullets ricochet off its chassis!'') [],
      Msg 7 (Lit ''drone sparks violently, collapsing into a pool of molten alloy.''),
      TickerRemove 6 ''do_patrol'', TickerAdd 90 ''set_alive'',
      Msg 7 (Lit ''drone sparks violently, collapsing into a pool of molten alloy.''),
      TickerRemove 90 ''set_alive'', TickerAdd 90 ''set_alive''] \<and>
   run [SetAlive, SetDead, DoPatrol rnd0] drone0 = Inl (AttributeError ''contents_get'')"
  by (simp add: drone0_def eval_defs do_patrol_def ambient_def rnd0_def find_target_def)

section \<open>Hunting\<close>





lemmas world_defs =
  env0_def env1_def env2_def env3_def player_def nobody_def rnd0_def



section \<open>Attacking\<close>

text \<open>
  Claim C9. An attack tick finds a target, runs its command, and finds the target's health
  at zero or below; the name in \<open>send_defeated_to\<close> resolves to nothing. Then the tick
  returns: the defender and the room are told, the failure is logged, nothing is moved (the
  world outside the agent is as the command left it), and the agent's own attributes are
  what they were before the tick.
\<close>

theorem defeat_unresolved_is_logged:
  assumes "location w = Some l" and "ambient r w = Inr w1"
    and "find_target (Some l) w = Inr (Some t)"
    and "w2 = execute_cmd exec (choice attack_verbs (verb_ix r) @ '' '' @ obj_key (objs (env w) t)) w1"
    and "obj_health (objs (env w2) t) = Some h" and "h \<le> 0"
    and "search_object (env w2) (send_defeated_to (cfg w)) = []"
  shows "\<exists>w'. do_attack exec r w = Inr w' \<and>
           trace w' = trace w2 @
             [Msg t (Lit (defeat_msg (cfg w))),
              MsgContents l (Fmt (defeat_msg_room (cfg w)) (obj_key (objs (env w2) t))) [t],
              LogErr (''Mob: send_defeated_to not found: '' @ send_defeated_to (cfg w))] \<and>
           env w' = env w2 \<and>
           w'\<lparr>env := env w, trace := trace w\<rparr> = w"
proof -
  note f = ambient_fields[OF assms(2)]
  have e: "w1\<lparr>trace := trace w\<rparr> = w" using assms(2) by (rule ambient_frame)
  have t1: "find_target (location w1) w1 = Inr (Some t)"
    using f assms(1,3) find_target_env[of w1 w] by simp
  have d: "do_attack exec r w = attack_outcome t w2"
    using assms(2) t1 f(2) by (simp add: do_attack_def assms(4) Let_def)
  have f2: "cfg w2 = cfg w" "location w2 = Some l"
    using f assms(1) by (simp_all add: assms(4) execute_cmd_def)
  have k: "w2\<lparr>env := env w, trace := trace w\<rparr> = w"
    using e by (simp add: assms(4) execute_cmd_def)
       (metis (no_types) world.surjective world.update_convs(13,14) world.select_convs(13))
  have o: "attack_outcome t w2 =
     Inr (w2\<lparr>trace := trace w2 @
             [Msg t (Lit (defeat_msg (cfg w))),
              MsgContents l (Fmt (defeat_msg_room (cfg w)) (obj_key (objs (env w2) t))) [t],
              LogErr (''Mob: send_defeated_to not found: '' @ send_defeated_to (cfg w))]\<rparr>)"
    using assms(5-7) f2
    by (simp add: attack_outcome_def location_msg_contents_def msg_def log_err_def)
  show ?thesis
    using k by (simp add: d o)
qed

lemma drone3_alive_eq:
  "drone3_alive =
     drone3\<lparr>is_dead := False, desc := Some (desc_alive (cfg drone3)),
            last_ticker_interval := Some 6, last_hook_key := Some ''do_patrol'',
            ndb_is_patrolling := True, tickers := {(6, ''do_patrol'')},
            trace := [TickerAdd 6 ''do_patrol'']\<rparr>"
  by (simp add: drone3_alive_def drone3_def eval_defs)

theorem defeat_unresolved_is_logged_witness:
  "location drone3_alive = Some 0 \<and> ambient rnd0 drone3_alive = Inr drone3_alive \<and>
   find_target (Some 0) drone3_alive = Inr (Some 7) \<and>
   obj_health (objs (env (execute_cmd knock_out ''burst Ann'' drone3_alive)) 7) = Some 0 \<and>
   search_object (env (execute_cmd knock_out ''burst Ann'' drone3_alive)) ''recovery_bay'' = [] \<and>
   (\<exists>w'. do_attack knock_out rnd0 drone3_alive = Inr w' \<and>
      trace w' =
        [TickerAdd 6 ''do_patrol'', ExecuteCmd ''burst Ann'',
         Msg 7 (Lit (defeat_msg (cfg drone3_alive))),
         MsgContents 0 (Fmt (defeat_msg_room (cfg drone3_alive)) ''Ann'') [7],
         LogErr ''Mob: send_defeated_to not found: recovery_bay''] \<and>
      contents_of (env w') 0 = [7] \<and>
      w'\<lparr>env := env drone3_alive, trace := trace drone3_alive\<rparr> = drone3_alive)"
proof -
  let ?w2 = "execute_cmd knock_out ''burst Ann'' drone3_alive"
  have a: "location drone3_alive = Some 0" "ambient rnd0 drone3_alive = Inr drone3_alive"
    "find_target (Some 0) drone3_alive = Inr (Some 7)"
    by (simp_all add: drone3_alive_eq drone3_def world_defs at_object_creation_def
        default_config_def ambient_def find_target_def valid_target_def)
  have c: "?w2 = execute_cmd knock_out
      (choice attack_verbs (verb_ix rnd0) @ '' '' @ obj_key (objs (env drone3_alive) 7))
      drone3_alive"
    by (simp add: drone3_alive_eq drone3_def world_defs at_object_creation_def
        choice_def attack_verbs_def)
  have h: "obj_health (objs (env ?w2) 7) = Some 0" "(0::rat) \<le> 0"
    "search_object (env ?w2) (send_defeated_to (cfg drone3_alive)) = []"
    "search_object (env ?w2) ''recovery_bay'' = []"
    by (simp_all add: execute_cmd_def knock_out_def drone3_alive_eq drone3_def world_defs
        at_object_creation_def default_config_def)
  have v: "trace ?w2 = [TickerAdd 6 ''do_patrol'', ExecuteCmd ''burst Ann'']"
    "obj_key (objs (env ?w2) 7) = ''Ann''" "contents_of (env ?w2) 0 = [7]"
    "send_defeated_to (cfg drone3_alive) = ''recovery_bay''"
    by (simp_all add: execute_cmd_def knock_out_def drone3_alive_eq drone3_def world_defs
        at_object_creation_def default_config_def)
  from defeat_unresolved_is_logged[OF a c h(1-3)]
  obtain w' where w': "do_attack knock_out rnd0 drone3_alive = Inr w'"
    "trace w' = trace ?w2 @
             [Msg 7 (Lit (defeat_msg (cfg drone3_alive))),
              MsgContents 0 (Fmt (defeat_msg_room (cfg drone3_alive))
                               (obj_key (objs (env ?w2) 7))) [7],
              LogErr (''Mob: send_defeated_to not found: ''
                        @ send_defeated_to (cfg drone3_alive))]"
    "env w' = env ?w2"
    "w'\<lparr>env := env drone3_alive, trace := trace drone3_alive\<rparr> = drone3_alive"
    by blast
  have "trace w' =
        [TickerAdd 6 ''do_patrol'', ExecuteCmd ''burst Ann'',
         Msg 7 (Lit (defeat_msg (cfg drone3_alive))),
         MsgContents 0 (Fmt (defeat_msg_room (cfg drone3_alive)) ''Ann'') [7],
         LogErr ''Mob: send_defeated_to not found: recovery_bay'']"
    "contents_of (env w') 0 = [7]"
    using w'(2,3) v by simp_all
  with a h w' show ?thesis by blast
qed

section \<open>The recorded hook always names a method\<close>

text \<open>
  The state setters pass \<open>_set_ticker\<close> nothing but method names, so the premise
  \<open>last_hook_resolves\<close> of the results above holds at creation and after every history.
\<close>

lemma kept_resolves: "timers_kept w w' \<Longrightarrow> last_hook_resolves w' = last_hook_resolves w"
  by (rule resolves_cong) (simp_all add: timers_kept_def)

lemma set_ticker_resolves:
  assumes "set_ticker I H False w = Inr w'"
  shows "last_hook_resolves w'"
proof -
  from assms have r: "\<forall>t \<in> armed I H False. snd t \<in> set mob_methods"
    and w': "w' = w\<lparr>last_ticker_interval := I, last_hook_key := H,
            tickers := (tickers w - last_timer w) \<union> armed I H False,
            trace := trace w @ cancel_effects w @ arm_effects I H False\<rparr>"
    by (simp_all add: set_ticker_Inr_iff)
  have "last_timer w' = armed I H False"
    by (simp add: w' last_timer_def armed_def split: option.splits)
  with r show ?thesis by (simp add: last_hook_resolves_def)
qed

lemma start_idle_resolves:
  assumes "start_idle w = Inr w'"
  shows "last_hook_resolves w'"
proof -
  have "last_ticker_interval w' = None"
    using assms by (simp add: start_idle_def set_ticker_Inr_iff)
  then show ?thesis by (simp add: last_hook_resolves_def last_timer_def)
qed

lemma start_patrolling_resolves:
  assumes "start_patrolling w = Inr w'"
  shows "last_hook_resolves w'"
proof (cases "patrolling (cfg w)")
  case False
  then show ?thesis using assms start_idle_resolves by (simp add: start_patrolling_def)
next
  case True
  then obtain w1 where
    s: "set_ticker (Some (patrolling_pace (cfg w))) (Some ''do_patrol'') False w = Inr w1"
    and w': "w' = w1\<lparr>ndb_is_patrolling := True, ndb_is_hunting := False,
                     ndb_is_attacking := False, health := full_health (cfg w1)\<rparr>"
    using assms by (auto simp: start_patrolling_def split: sum.splits)
  show ?thesis
    using set_ticker_resolves[OF s] resolves_cong[of w' w1] by (simp add: w')
qed

lemma start_hunting_resolves:
  assumes "start_hunting w = Inr w'"
  shows "last_hook_resolves w'"
proof (cases "hunting (cfg w)")
  case False
  then show ?thesis using assms start_patrolling_resolves by (simp add: start_hunting_def)
next
  case True
  then obtain w1 where
    s: "set_ticker (Some (hunting_pace (cfg w))) (Some ''do_hunt'') False w = Inr w1"
    and w': "w' = w1\<lparr>ndb_is_patrolling := False, ndb_is_hunting := True,
                     ndb_is_attacking := False\<rparr>"
    using assms by (auto simp: start_hunting_def split: sum.splits)
  show ?thesis
    using set_ticker_resolves[OF s] resolves_cong[of w' w1] by (simp add: w')
qed

lemma start_attacking_resolves:
  assumes "start_attacking w = Inr w'"
  shows "last_hook_resolves w'"
proof (cases "aggressive (cfg w)")
  case False
  then show ?thesis using assms start_hunting_resolves by (simp add: start_attacking_def)
next
  case True
  then obtain w1 where
    s: "set_ticker (Some (aggressive_pace (cfg w))) (Some ''do_attack'') False w = Inr w1"
    and w': "w' = w1\<lparr>ndb_is_patrolling := False, ndb_is_hunting := False,
                     ndb_is_attacking := True\<rparr>"
    using assms by (auto simp: start_attacking_def split: sum.splits)
  show ?thesis
    using set_ticker_resolves[OF s] resolves_cong[of w' w1] by (simp add: w')
qed

lemma set_alive_resolves:
  assumes "last_hook_resolves w" "set_alive w = Inr w'"
  shows "last_hook_resolves w'"
proof -
  define w1 where "w1 = w\<lparr>health := full_health (cfg w), is_dead := False,
                 desc := Some (desc_alive (cfg w)),
                 ndb_is_immortal := immortal (cfg w),
                 ndb_is_patrolling := patrolling (cfg w)\<rparr>"
  define w2 where "w2 = (if location w1 = None then move_to (home (cfg w1)) w1 else w1)"
  have r: "(if patrolling (cfg w2) then start_patrolling w2 else Inr w2) = Inr w'"
    using assms(2) by (simp only: set_alive_def Let_def w1_def w2_def)
  have c: "last_ticker_interval w2 = last_ticker_interval w" "last_hook_key w2 = last_hook_key w"
    by (simp_all add: w2_def w1_def move_to_def)
  have r2: "last_hook_resolves w2"
    using assms(1) resolves_cong[OF c] by simp
  show ?thesis
  proof (cases "patrolling (cfg w2)")
    case True
    then show ?thesis using r start_patrolling_resolves[of w2 w'] by simp
  next
    case False
    then show ?thesis using r r2 by simp
  qed
qed

lemma hunt_exits_resolves:
  assumes "last_hook_resolves w" "hunt_exits exits w = Inr w'"
  shows "last_hook_resolves w'"
  using assms(2)
proof (induction exits)
  case Nil
  then show ?case using start_patrolling_resolves by simp
next
  case (Cons ex exits)
  have "timers_kept w (move_to (destination ex) w)" by (rule kept_move_to)
  with Cons show ?case
    using kept_resolves assms(1) by (auto split: sum.splits option.splits)
qed

lemma fire_resolves:
  assumes "last_hook_resolves w" "fire ev w = Inr w'"
  shows "last_hook_resolves w'"
proof (cases ev)
  case SetAlive
  then show ?thesis using assms set_alive_resolves by simp
next
  case SetDead
  then show ?thesis using assms(2) set_ticker_resolves by (simp add: set_dead_def)
next
  case AtInit
  then show ?thesis
    using assms resolves_cong[of "at_init w" w] by (auto simp: at_init_def)
next
  case (DoPatrol r)
  then obtain w1 where a: "ambient r w = Inr w1"
    and r: "start_attacking w1 = Inr w' \<or> patrol_move r w1 = Inr w'"
    using assms(2)
    by (auto simp: do_patrol_def split: sum.splits option.splits if_splits)
  show ?thesis
    using r kept_resolves[OF kept_ambient[OF a]] assms(1) start_attacking_resolves[of w1 w']
      kept_resolves[OF kept_patrol_move, of r w1 w']
    by auto
next
  case (DoHunt r)
  then obtain w1 where a: "ambient r w = Inr w1"
    and r: "start_attacking w1 = Inr w' \<or> hunt_move w1 = Inr w'"
    using assms(2)
    by (auto simp: do_hunt_def split: sum.splits option.splits if_splits)
  have k1: "last_hook_resolves w1"
    using kept_resolves[OF kept_ambient[OF a]] assms(1) by simp
  have "timers_kept w1 (move_to (home (cfg w1)) w1)" by (rule kept_move_to)
  then have h: "hunt_move w1 = Inr w' \<Longrightarrow> last_hook_resolves w'"
    using hunt_exits_resolves[OF k1, of _ w'] kept_resolves k1
    by (auto simp: hunt_move_def split: sum.splits if_splits)
  show ?thesis
    using r start_attacking_resolves[of w1 w'] h by auto
next
  case (DoAttack exec r)
  then obtain w1 where a: "ambient r w = Inr w1"
    and r: "start_hunting w1 = Inr w' \<or>
            (\<exists>t c. attack_outcome t (execute_cmd exec c w1) = Inr w')"
    using assms(2)
    by (auto simp: do_attack_def Let_def split: sum.splits option.splits if_splits)
  from r show ?thesis
  proof
    assume "start_hunting w1 = Inr w'"
    then show ?thesis by (rule start_hunting_resolves)
  next
    assume "\<exists>t c. attack_outcome t (execute_cmd exec c w1) = Inr w'"
    then obtain t c where o: "attack_outcome t (execute_cmd exec c w1) = Inr w'" by blast
    have "timers_kept w w'"
      using kept_trans[OF kept_ambient[OF a]
          kept_trans[OF kept_execute_cmd kept_attack_outcome[OF o]]] .
    then show ?thesis using kept_resolves assms(1) by simp
  qed
next
  case (AtHit wpn a d)
  show ?thesis
  proof (cases "health w")
    case None
    have "timers_kept w (msg a (Lit (weapon_ineffective_msg (cfg w))) w)" by (rule kept_msg)
    then show ?thesis
      using None AtHit assms kept_resolves by (auto simp: at_hit_def)
  next
    case (Some h)
    then obtain w1 and h1 :: rat where t: "take_damage wpn a d h w = Inr w1"
      and r: "(if h1 \<le> 0 then set_dead (msg a (Lit (death_msg (cfg w1))) w1)
             else if aggressive (cfg w1) \<and> \<not> ndb_is_attacking w1 then start_attacking w1
             else Inr w1) = Inr w'"
      using assms(2) AtHit by (auto simp: at_hit_def split: sum.splits option.splits)
    have k1: "last_hook_resolves w1"
      using kept_resolves[OF kept_take_damage[OF t]] assms(1) by simp
    show ?thesis
      using r k1 set_ticker_resolves start_attacking_resolves[of w1 w']
      by (auto simp: set_dead_def split: if_splits)
  qed
next
  case (AtNewArrival c)
  then show ?thesis
    using assms start_attacking_resolves[of w w']
    by (auto simp: at_new_arrival_def split: if_splits)
next
  case (Outside f)
  then show ?thesis
    using assms resolves_cong[of "w\<lparr>env := f (env w)\<rparr>" w] by auto
qed

lemma creation_resolves: "last_hook_resolves (at_object_creation k h loc e)"
  by (simp add: last_hook_resolves_def last_timer_def at_object_creation_def)

lemma run_resolves:
  "last_hook_resolves w \<Longrightarrow> run evs w = Inr w' \<Longrightarrow> last_hook_resolves w'"
proof (induction evs arbitrary: w)
  case Nil
  then show ?case by simp
next
  case (Cons ev evs)
  then obtain w1 where f: "fire ev w = Inr w1" and r: "run evs w1 = Inr w'"
    by (auto split: sum.splits)
  show ?case using Cons.IH[OF fire_resolves[OF Cons.prems(1) f] r] .
qed

end
